theory Spec2Isabelle
  imports Complex_Main "HOL-Library.Word"
begin

section \<open>nice-table: the layout engine of \<open>src/index.ts\<close>\<close>

text \<open>
  The development embeds \<open>createTable\<close> and its helpers (\<open>shrinkColumns\<close>,
  \<open>growColumns\<close>, \<open>createMultiLineRows\<close>, \<open>createRow\<close>, \<open>centerText\<close> and the
  border builders) as HOL functions and proves the properties of the layout.

  Conventions of the embedding:
  \<^item> a JavaScript string is the list of its UTF-16 code units, so \<open>length\<close> is the
    \<open>.length\<close> of the source;
  \<^item> a JavaScript number that holds an integer (a string length, a column width, a
    width budget) is an \<open>int\<close>. The embedding is exact as long as these integers stay
    below \<open>2 ^ 53\<close> in magnitude, where binary64 represents every integer and
    \<open>Math.floor (a / b)\<close> is the floor division of the integers;
  \<^item> the two places where the source computes with fractions (the shrink and grow
    factors) are embedded with the rounding of binary64 written out (\<open>fl64\<close>);
  \<^item> a quotient by zero is \<open>Infinity\<close> or \<open>NaN\<close> in the source: the type \<open>number\<close>
    keeps these values where the source can produce them;
  \<^item> a thrown exception is the left injection of a sum, and a loop that may run for
    ever is a partial function into \<open>option\<close>.
\<close>

subsection \<open>Strings\<close>

type_synonym jsstring = "16 word list"

definition ascii :: "string \<Rightarrow> jsstring" where
  "ascii s = map of_char s"

definition SPACE :: "16 word" where "SPACE = 0x20"
definition NEWLINE :: "16 word" where "NEWLINE = 0x0A"

text \<open>The box-drawing glyphs, each one code unit.\<close>

definition TOP_LEFT :: jsstring where "TOP_LEFT = [0x250C]"
definition TOP_RIGHT :: jsstring where "TOP_RIGHT = [0x2510]"
definition TOP_MIDDLE :: jsstring where "TOP_MIDDLE = [0x252C]"
definition BOTTOM_LEFT :: jsstring where "BOTTOM_LEFT = [0x2514]"
definition BOTTOM_RIGHT :: jsstring where "BOTTOM_RIGHT = [0x2518]"
definition BOTTOM_MIDDLE :: jsstring where "BOTTOM_MIDDLE = [0x2534]"
definition LEFT_MIDDLE :: jsstring where "LEFT_MIDDLE = [0x251C]"
definition RIGHT_MIDDLE :: jsstring where "RIGHT_MIDDLE = [0x2524]"
definition MIDDLE :: jsstring where "MIDDLE = [0x253C]"
definition HORIZONTAL :: jsstring where "HORIZONTAL = [0x2500]"
definition VERTICAL :: jsstring where "VERTICAL = [0x2502]"

text \<open>
  \<open>String.prototype.trim\<close> removes the white space and line terminator code units
  of ECMAScript from both ends.
\<close>

definition isWhiteSpace :: "16 word \<Rightarrow> bool" where
  "isWhiteSpace c = (c \<in> set [0x09, 0x0A, 0x0B, 0x0C, 0x0D, 0x20, 0xA0, 0x1680,
     0x2000, 0x2001, 0x2002, 0x2003, 0x2004, 0x2005, 0x2006, 0x2007, 0x2008, 0x2009,
     0x200A, 0x2028, 0x2029, 0x202F, 0x205F, 0x3000, 0xFEFF])"

definition trim :: "jsstring \<Rightarrow> jsstring" where
  "trim s = rev (dropWhile isWhiteSpace (rev (dropWhile isWhiteSpace s)))"

text \<open>\<open>s.padEnd (n, ' ')\<close> and \<open>s.padStart (n, ' ')\<close>: no effect when \<open>n\<close> is not
  above the length.\<close>

definition padEnd :: "jsstring \<Rightarrow> int \<Rightarrow> jsstring" where
  "padEnd s n = (if n \<le> int (length s) then s
                 else s @ replicate (nat (n - int (length s))) SPACE)"

definition padStart :: "jsstring \<Rightarrow> int \<Rightarrow> jsstring" where
  "padStart s n = (if n \<le> int (length s) then s
                   else replicate (nat (n - int (length s))) SPACE @ s)"

text \<open>
  \<open>s.slice (a, b)\<close> and \<open>s.slice (a)\<close>: a negative index counts from the end, and
  both ends are clamped to the string.
\<close>

definition sliceIndex :: "nat \<Rightarrow> int \<Rightarrow> nat" where
  "sliceIndex len i = (if i < 0 then nat (max (int len + i) 0) else min (nat i) len)"

definition slice :: "jsstring \<Rightarrow> int \<Rightarrow> int \<Rightarrow> jsstring" where
  "slice s a b = (let from = sliceIndex (length s) a; to = sliceIndex (length s) b
                  in take (to - from) (drop from s))"

definition sliceFrom :: "jsstring \<Rightarrow> int \<Rightarrow> jsstring" where
  "sliceFrom s a = drop (sliceIndex (length s) a) s"

text \<open>\<open>xs.join (sep)\<close> on an array of strings.\<close>

fun join :: "jsstring \<Rightarrow> jsstring list \<Rightarrow> jsstring" where
  "join sep [] = []"
| "join sep [x] = x"
| "join sep (x # y # ys) = x @ sep @ join sep (y # ys)"

text \<open>\<open>s.split ('\n')\<close>: the physical lines of a string.\<close>

fun splitLines :: "jsstring \<Rightarrow> jsstring list" where
  "splitLines [] = [[]]"
| "splitLines (c # cs) =
     (if c = NEWLINE then [] # splitLines cs
      else (case splitLines cs of l # ls \<Rightarrow> (c # l) # ls | [] \<Rightarrow> [[c]]))"

text \<open>
  The decimal digits of a number that holds an integer, as \<open>toString\<close> and a template
  literal print it (below \<open>10 ^ 21\<close> in magnitude, where the source prints no exponent).
\<close>

function digits :: "int \<Rightarrow> jsstring" where
  "digits n = (if n < 10 then [of_int (48 + n)]
               else digits (n div 10) @ [of_int (48 + n mod 10)])"
  by pat_completeness auto
termination
  by (relation "measure nat") auto

definition numberToString :: "int \<Rightarrow> jsstring" where
  "numberToString n = (if n < 0 then ascii ''-'' @ digits (- n) else digits n)"

subsection \<open>Numbers\<close>

text \<open>
  \<open>number\<close> holds what \<open>Math.floor (a / b)\<close> and \<open>Math.max ()\<close> can be for integers:
  an integer, an infinity (a nonzero numerator over zero, the maximum of nothing) or
  \<open>NaN\<close> (zero over zero).
\<close>

datatype number = Finite int | PosInfinity | NegInfinity | NaN

definition floorDiv :: "int \<Rightarrow> int \<Rightarrow> number" where
  "floorDiv a b = (if b \<noteq> 0 then Finite (a div b)
                   else if 0 < a then PosInfinity else if a < 0 then NegInfinity else NaN)"

text \<open>\<open>w > m\<close> and \<open>w < m\<close> for an integer \<open>w\<close>: every comparison with \<open>NaN\<close> is false.\<close>

fun exceeds :: "int \<Rightarrow> number \<Rightarrow> bool" where
  "exceeds w (Finite m) = (m < w)"
| "exceeds w PosInfinity = False"
| "exceeds w NegInfinity = True"
| "exceeds w NaN = False"

fun below :: "int \<Rightarrow> number \<Rightarrow> bool" where
  "below w (Finite m) = (w < m)"
| "below w PosInfinity = True"
| "below w NegInfinity = False"
| "below w NaN = False"

text \<open>
  Binary64 arithmetic on fractions. \<open>fl64 x\<close> is the double nearest to the rational
  \<open>x\<close>, ties to the even significand of 53 bits. The exponent is not bounded here: the
  function agrees with IEEE 754 for \<open>2 ^ -1022 \<le> \<bar>x\<bar> < 2 ^ 1024\<close>, which covers
  every quotient and product of integers below \<open>2 ^ 53\<close> that the source forms.
\<close>

function bitLength :: "int \<Rightarrow> int" where
  "bitLength n = (if n \<le> 0 then 0 else 1 + bitLength (n div 2))"
  by pat_completeness auto
termination
  by (relation "measure nat") auto

definition pow2 :: "int \<Rightarrow> rat" where
  "pow2 e = (if 0 \<le> e then 2 ^ nat e else 1 / 2 ^ nat (- e))"

definition binaryExponent :: "rat \<Rightarrow> int" where
  "binaryExponent x =
     (let (p, q) = quotient_of x;
          e = bitLength p - bitLength q
      in if pow2 e \<le> x then e else e - 1)"

definition roundHalfEven :: "rat \<Rightarrow> int" where
  "roundHalfEven x =
     (let f = \<lfloor>x\<rfloor>; d = x - of_int f
      in if d < 1 / 2 then f else if 1 / 2 < d then f + 1
         else if even f then f else f + 1)"

definition fl64 :: "rat \<Rightarrow> rat" where
  "fl64 x =
     (if x = 0 then 0
      else let ulp = pow2 (binaryExponent \<bar>x\<bar> - 52)
           in sgn x * of_int (roundHalfEven (\<bar>x\<bar> / ulp)) * ulp)"

text \<open>\<open>Math.floor (factor * w)\<close> for a double \<open>factor\<close> and an integer \<open>w\<close>.\<close>

definition floorTimes :: "rat \<Rightarrow> int \<Rightarrow> int" where
  "floorTimes factor w = \<lfloor>fl64 (factor * of_int w)\<rfloor>"

subsection \<open>Errors\<close>

text \<open>
  \<open>Error m\<close> is \<open>throw new Error (m)\<close>; \<open>RangeError\<close> is what \<open>repeat\<close> throws on a
  negative count, \<open>TypeError\<close> what a property read on \<open>undefined\<close> throws. A
  computation that can also fail to return has type \<open>(error + 'a) option\<close>, with \<open>None\<close>
  for not returning.
\<close>

datatype error = Error jsstring | RangeError | TypeError

fun mapE :: "('a \<Rightarrow> error + 'b) \<Rightarrow> 'a list \<Rightarrow> error + 'b list" where
  "mapE f [] = Inr []"
| "mapE f (x # xs) =
     (case f x of Inl e \<Rightarrow> Inl e
      | Inr y \<Rightarrow> (case mapE f xs of Inl e \<Rightarrow> Inl e | Inr ys \<Rightarrow> Inr (y # ys)))"

fun mapC :: "('a \<Rightarrow> (error + 'b) option) \<Rightarrow> 'a list \<Rightarrow> (error + 'b list) option" where
  "mapC f [] = Some (Inr [])"
| "mapC f (x # xs) =
     (case f x of None \<Rightarrow> None
      | Some (Inl e) \<Rightarrow> Some (Inl e)
      | Some (Inr y) \<Rightarrow>
          (case mapC f xs of None \<Rightarrow> None
           | Some (Inl e) \<Rightarrow> Some (Inl e)
           | Some (Inr ys) \<Rightarrow> Some (Inr (y # ys))))"

text \<open>\<open>xs[i]\<close>: \<open>None\<close> is \<open>undefined\<close>.\<close>

definition elementAt :: "'a list \<Rightarrow> nat \<Rightarrow> 'a option" where
  "elementAt xs i = (if i < length xs then Some (xs ! i) else None)"

definition repeat :: "jsstring \<Rightarrow> int \<Rightarrow> error + jsstring" where
  "repeat s n = (if n < 0 then Inl RangeError else Inr (concat (replicate (nat n) s)))"

subsection \<open>Options\<close>

datatype HorizontalAlignment = HLeft | HMiddle | HRight
datatype VerticalAlignment = VTop | VMiddle | VBottom

text \<open>\<open>Unknown s\<close> is any value of \<open>columnSizing\<close> that reaches the \<open>default\<close> branch.\<close>

datatype ColumnSizing = Stretch | Even | Unknown jsstring

subsection \<open>Borders and rows\<close>

definition borderLine :: "jsstring \<Rightarrow> jsstring \<Rightarrow> jsstring \<Rightarrow> int list \<Rightarrow> error + jsstring" where
  "borderLine left middle right columnWidths =
     (case mapE (\<lambda>size. repeat HORIZONTAL size) columnWidths of
        Inl e \<Rightarrow> Inl e
      | Inr parts \<Rightarrow> Inr (left @ join middle parts @ right))"

definition createTableTop :: "int list \<Rightarrow> error + jsstring" where
  "createTableTop columnWidths = borderLine TOP_LEFT TOP_MIDDLE TOP_RIGHT columnWidths"

definition createTableMiddleLine :: "int list \<Rightarrow> error + jsstring" where
  "createTableMiddleLine columnWidths = borderLine LEFT_MIDDLE MIDDLE RIGHT_MIDDLE columnWidths"

definition createTableBottom :: "int list \<Rightarrow> error + jsstring" where
  "createTableBottom columnWidths =
     borderLine BOTTOM_LEFT BOTTOM_MIDDLE BOTTOM_RIGHT columnWidths"

definition centerText :: "jsstring \<Rightarrow> int \<Rightarrow> error + jsstring" where
  "centerText text width =
     (let text = trim text;
          padding = (width - int (length text)) div 2
      in case repeat [SPACE] padding of
           Inl e \<Rightarrow> Inl e
         | Inr spaces \<Rightarrow> Inr (padEnd (spaces @ text) width))"

text \<open>
  In \<open>createRow\<close> a cell that is \<open>undefined\<close> is concatenated as the text
  \<open>undefined\<close> by \<open>+\<close>, and \<open>centerText\<close> throws on it at \<open>trim\<close>.
\<close>

definition cellText :: "jsstring option \<Rightarrow> jsstring" where
  "cellText c = (case c of None \<Rightarrow> ascii ''undefined'' | Some t \<Rightarrow> t)"

definition createCell :: "jsstring list \<Rightarrow> HorizontalAlignment \<Rightarrow> int \<times> nat \<Rightarrow> error + jsstring" where
  "createCell cells horizontalAlignment =
     (\<lambda>(columnWidth, i).
        if horizontalAlignment = HLeft
        then Inr (padEnd ([SPACE] @ cellText (elementAt cells i)) columnWidth)
        else if horizontalAlignment = HRight
        then Inr (padStart (cellText (elementAt cells i) @ [SPACE]) columnWidth)
        else (case elementAt cells i of
                None \<Rightarrow> Inl TypeError
              | Some c \<Rightarrow> centerText c columnWidth))"

definition createRow :: "jsstring list \<Rightarrow> int list \<Rightarrow> HorizontalAlignment \<Rightarrow> error + jsstring" where
  "createRow cells columnWidths horizontalAlignment =
     (case mapE (createCell cells horizontalAlignment)
             (zip columnWidths [0..<length columnWidths]) of
        Inl e \<Rightarrow> Inl e
      | Inr parts \<Rightarrow> Inr (VERTICAL @ join VERTICAL parts @ VERTICAL))"

subsection \<open>Wrapping and vertical alignment\<close>

text \<open>
  The \<open>while (cell.length)\<close> loop of \<open>createMultiLineRows\<close>. It does not end when the
  inner width \<open>columnWidth - 2\<close> is not positive and the cell is not empty.
\<close>

partial_function (option) wrapLoop :: "int \<Rightarrow> jsstring \<Rightarrow> jsstring list \<Rightarrow> jsstring list option" where
  "wrapLoop innerWidth cell cellLines =
     (if length cell = 0 then Some cellLines
      else wrapLoop innerWidth (sliceFrom cell innerWidth)
             (cellLines @ [slice cell 0 innerWidth]))"

declare wrapLoop.simps [code]

definition splitCell :: "jsstring list \<Rightarrow> int list \<Rightarrow> nat \<Rightarrow> (error + jsstring list) option" where
  "splitCell row columnWidths i =
     (case elementAt row i of
        None \<Rightarrow> Some (Inl TypeError)
      | Some cell \<Rightarrow> map_option Inr (wrapLoop (columnWidths ! i - 2) cell []))"

text \<open>The number of empty lines put before a cell of \<open>lineCount\<close> lines in a row of
  height \<open>rowHeight\<close>; the row height is the largest line count, so the difference is
  not negative.\<close>

definition verticalPadding :: "VerticalAlignment \<Rightarrow> nat \<Rightarrow> nat \<Rightarrow> nat" where
  "verticalPadding verticalAlignment rowHeight lineCount =
     (case verticalAlignment of
        VTop \<Rightarrow> 0
      | VMiddle \<Rightarrow> (rowHeight - lineCount) div 2
      | VBottom \<Rightarrow> rowHeight - lineCount)"

definition rowHeightOf :: "jsstring list list \<Rightarrow> nat" where
  "rowHeightOf cells = fold (\<lambda>cellLines rowHeight. max rowHeight (length cellLines)) cells 0"

definition alignCells :: "VerticalAlignment \<Rightarrow> nat \<Rightarrow> jsstring list list \<Rightarrow> jsstring list list" where
  "alignCells verticalAlignment rowHeight cells =
     (if verticalAlignment \<noteq> VTop
      then map (\<lambda>cellLines.
             replicate (verticalPadding verticalAlignment rowHeight (length cellLines)) []
             @ cellLines) cells
      else cells)"

definition cellRowsOf :: "nat \<Rightarrow> jsstring list list \<Rightarrow> jsstring list list" where
  "cellRowsOf rowHeight cells =
     map (\<lambda>i. map (\<lambda>cell. case elementAt cell i of None \<Rightarrow> [] | Some line \<Rightarrow> line) cells)
       [0..<rowHeight]"

definition createMultiLineRows ::
  "jsstring list \<Rightarrow> int list \<Rightarrow> HorizontalAlignment \<Rightarrow> VerticalAlignment \<Rightarrow> (error + jsstring) option" where
  "createMultiLineRows row columnWidths horizontalAlignment verticalAlignment =
     (case mapC (splitCell row columnWidths) [0..<length columnWidths] of
        None \<Rightarrow> None
      | Some (Inl e) \<Rightarrow> Some (Inl e)
      | Some (Inr cells) \<Rightarrow>
          (let rowHeight = rowHeightOf cells;
               cellRows = cellRowsOf rowHeight (alignCells verticalAlignment rowHeight cells)
           in case mapE (\<lambda>r. createRow r columnWidths horizontalAlignment) cellRows of
                Inl e \<Rightarrow> Some (Inl e)
              | Inr rendered \<Rightarrow> Some (Inr (join [NEWLINE] rendered))))"

definition createTableRows ::
  "jsstring list list \<Rightarrow> int list \<Rightarrow> HorizontalAlignment \<Rightarrow> VerticalAlignment \<Rightarrow> (error + jsstring) option" where
  "createTableRows tableContent columnWidths horizontalAlignment verticalAlignment =
     (case mapC (\<lambda>row. createMultiLineRows row columnWidths horizontalAlignment
                    verticalAlignment) tableContent of
        None \<Rightarrow> None
      | Some (Inl e) \<Rightarrow> Some (Inl e)
      | Some (Inr blocks) \<Rightarrow> Some (Inr (join [NEWLINE] blocks)))"

definition createTableColumnNames ::
  "jsstring list \<Rightarrow> int list \<Rightarrow> HorizontalAlignment \<Rightarrow> VerticalAlignment \<Rightarrow> (error + jsstring) option" where
  "createTableColumnNames columnNames columnWidths horizontalAlignment verticalAlignment =
     (case createMultiLineRows columnNames columnWidths horizontalAlignment
             verticalAlignment of
        None \<Rightarrow> None
      | Some (Inl e) \<Rightarrow> Some (Inl e)
      | Some (Inr names) \<Rightarrow>
          (case createTableMiddleLine columnWidths of
             Inl e \<Rightarrow> Some (Inl e)
           | Inr line \<Rightarrow> Some (Inr (names @ [NEWLINE] @ line))))"

subsection \<open>The solver of the column widths\<close>

text \<open>
  \<open>shrinkColumns\<close> and \<open>growColumns\<close> update the array \<open>columnWidths\<close> in place; the
  embedding returns the updated array. The indices they write are taken from the array
  itself, so every read \<open>columnWidths ! i\<close> below is in range. When no column is big
  (small), \<open>bigColumnIndices[bigColumnIndices.length - 1]\<close> is \<open>undefined\<close> and the last
  assignment writes a property named \<open>undefined\<close>: the elements stay as they are.
\<close>

definition bigColumnIndicesOf :: "int list \<Rightarrow> number \<Rightarrow> nat list" where
  "bigColumnIndicesOf columnWidths minimumWidth =
     filter (\<lambda>i. exceeds (columnWidths ! i) minimumWidth) [0..<length columnWidths]"

definition shrinkStep :: "rat \<Rightarrow> int \<Rightarrow> nat \<Rightarrow> int list \<times> int \<times> int \<Rightarrow> int list \<times> int \<times> int" where
  "shrinkStep shrinkFactor minimumWidth columnIndex =
     (\<lambda>(columnWidths, overflow, bigColumnsWidth).
        let currentColumnWidth = columnWidths ! columnIndex;
            fixedWidth = max minimumWidth (floorTimes shrinkFactor currentColumnWidth);
            widthReduction = currentColumnWidth - fixedWidth
        in (columnWidths[columnIndex := fixedWidth], overflow - widthReduction,
            bigColumnsWidth - widthReduction))"

text \<open>
  With a finite \<open>minimumWidth\<close> the divisor of the shrink factor is positive, since every
  big column is wider than \<open>minimumWidth\<close>. With \<open>minimumWidth = -Infinity\<close> every column
  is big, the divisor is \<open>Infinity\<close>, the factor is \<open>1\<close> and the loop changes no width.
  With \<open>Infinity\<close> or \<open>NaN\<close> no column is big.
\<close>

definition shrinkColumns :: "int list \<Rightarrow> number \<Rightarrow> int \<Rightarrow> int list" where
  "shrinkColumns columnWidths minimumWidth overflow =
     (let bigColumnIndices = bigColumnIndicesOf columnWidths minimumWidth
      in if bigColumnIndices = [] then columnWidths
         else (case minimumWidth of
                 Finite m \<Rightarrow>
                   (let bigColumnsWidth = (\<Sum>columnIndex\<leftarrow>bigColumnIndices. columnWidths ! columnIndex);
                        shrinkFactor = fl64 (1 - fl64 (of_int overflow /
                          of_int (bigColumnsWidth - int (length bigColumnIndices) * m)));
                        (widths, remaining, unused) =
                           fold (shrinkStep shrinkFactor m) (butlast bigColumnIndices)
                             (columnWidths, overflow, bigColumnsWidth)
                    in widths[last bigColumnIndices := widths ! last bigColumnIndices - remaining])
               | NegInfinity \<Rightarrow>
                   columnWidths[last bigColumnIndices :=
                     columnWidths ! last bigColumnIndices - overflow]
               | PosInfinity \<Rightarrow> columnWidths
               | NaN \<Rightarrow> columnWidths))"

definition smallColumnIndicesOf :: "int list \<Rightarrow> number \<Rightarrow> nat list" where
  "smallColumnIndicesOf columnWidths minimumWidth =
     filter (\<lambda>i. below (columnWidths ! i) minimumWidth) [0..<length columnWidths]"

definition growStep :: "rat \<Rightarrow> nat \<Rightarrow> int list \<times> int \<times> int \<Rightarrow> int list \<times> int \<times> int" where
  "growStep growFactor columnIndex =
     (\<lambda>(columnWidths, growth, smallColumnsWidth).
        let currentColumnWidth = columnWidths ! columnIndex;
            fixedWidth = floorTimes growFactor currentColumnWidth;
            widthGrowth = fixedWidth - currentColumnWidth
        in (columnWidths[columnIndex := fixedWidth], growth - widthGrowth,
            smallColumnsWidth + widthGrowth))"

text \<open>
  \<open>growColumns\<close> divides by the total width of the small columns. When that total is
  zero and the loop has a column to visit, the grow factor is not finite and the widths
  it writes are no integers: the embedding has no value for them and returns \<open>None\<close>.
\<close>

definition growColumns :: "int list \<Rightarrow> number \<Rightarrow> int \<Rightarrow> int list option" where
  "growColumns columnWidths minimumWidth growth =
     (let smallColumnIndices = smallColumnIndicesOf columnWidths minimumWidth
      in if smallColumnIndices = [] then Some columnWidths
         else (let smallColumnsWidth = (\<Sum>columnIndex\<leftarrow>smallColumnIndices. columnWidths ! columnIndex)
               in if smallColumnsWidth = 0 \<and> butlast smallColumnIndices \<noteq> [] then None
                  else (let growFactor = fl64 (1 + fl64 (of_int growth / of_int smallColumnsWidth));
                            (widths, remaining, unused) =
                               fold (growStep growFactor) (butlast smallColumnIndices)
                                 (columnWidths, growth, smallColumnsWidth)
                        in Some (widths[last smallColumnIndices :=
                                   widths ! last smallColumnIndices + remaining]))))"

definition unknownSizingMessage :: "jsstring \<Rightarrow> jsstring" where
  "unknownSizingMessage s = ascii ''Unknown column sizing '' @ [0x27] @ s @ [0x27]"

text \<open>
  The \<open>switch\<close> on \<open>columnSizing\<close>: the widths and the overflow after it. With no
  column, \<open>Math.max ()\<close> is \<open>-Infinity\<close> and the overflow of the even strategy is
  \<open>-Infinity * columnCount - availableColumnWidth\<close>, which is \<open>NaN\<close> for
  \<open>columnCount = 0\<close>; a positive infinite overflow would shrink an empty array.
\<close>

definition sizeColumns :: "ColumnSizing \<Rightarrow> int list \<Rightarrow> number \<Rightarrow> int \<Rightarrow> int \<Rightarrow> error + int list \<times> number" where
  "sizeColumns sizing columnWidths averageColumnWidth columnCount availableColumnWidth =
     (case sizing of
        Stretch \<Rightarrow>
          (let overflow = sum_list columnWidths - availableColumnWidth
           in if 0 < overflow
              then Inr (shrinkColumns columnWidths averageColumnWidth overflow, Finite 0)
              else Inr (columnWidths, Finite overflow))
      | Even \<Rightarrow>
          (case columnWidths of
             [] \<Rightarrow>
               Inr ([], if columnCount = 0 then NaN
                        else if 0 < columnCount then NegInfinity else Finite 0)
           | w # rest \<Rightarrow>
               (let maxColumnWidth = fold max rest w;
                    evenWidths = replicate (length columnWidths) maxColumnWidth;
                    overflow = maxColumnWidth * columnCount - availableColumnWidth
                in if 0 < overflow
                   then Inr (shrinkColumns evenWidths averageColumnWidth overflow, Finite 0)
                   else Inr (evenWidths, Finite overflow)))
      | Unknown s \<Rightarrow> Inl (Error (unknownSizingMessage s)))"

text \<open>
  \<open>if (fullWidth && overflow < 0) growColumns (columnWidths, averageColumnWidth, -overflow)\<close>.
  The overflow is \<open>-Infinity\<close> only with no column, where \<open>growColumns\<close> finds no small
  column and changes nothing.
\<close>

definition growToFullWidth :: "bool \<Rightarrow> number \<Rightarrow> int list \<times> number \<Rightarrow> int list option" where
  "growToFullWidth full averageColumnWidth =
     (\<lambda>(columnWidths, overflow).
        case overflow of
          Finite v \<Rightarrow>
            if full \<and> v < 0 then growColumns columnWidths averageColumnWidth (- v)
            else Some columnWidths
        | NegInfinity \<Rightarrow> Some columnWidths
        | PosInfinity \<Rightarrow> Some columnWidths
        | NaN \<Rightarrow> Some columnWidths)"

text \<open>Lines 52 to 87 of \<open>createTable\<close>: from the natural widths to the final widths.\<close>

definition solveWidths :: "ColumnSizing \<Rightarrow> bool \<Rightarrow> int \<Rightarrow> int \<Rightarrow> int list \<Rightarrow> (error + int list) option" where
  "solveWidths sizing full width columnCount columnWidths =
     (let availableColumnWidth = width - columnCount - 1;
          averageColumnWidth = floorDiv availableColumnWidth columnCount
      in case sizeColumns sizing columnWidths averageColumnWidth columnCount
                availableColumnWidth of
           Inl e \<Rightarrow> Some (Inl e)
         | Inr sized \<Rightarrow> map_option Inr (growToFullWidth full averageColumnWidth sized))"

subsection \<open>The table\<close>

record TableOptions =
  maxWidth :: int
  columnSizing :: ColumnSizing
  horizontalAlignment :: HorizontalAlignment
  verticalAlignment :: VerticalAlignment
  fullWidth :: bool
  throwIfTooSmall :: bool
  indexColumn :: bool

definition defaultOptions :: TableOptions where
  "defaultOptions = \<lparr> maxWidth = 80, columnSizing = Stretch, horizontalAlignment = HMiddle,
     verticalAlignment = VMiddle, fullWidth = False, throwIfTooSmall = True,
     indexColumn = False \<rparr>"

text \<open>
  The arguments of \<open>createTable\<close>: \<open>keyToString\<close> is \<open>key.toString ()\<close>, an item is the
  function from a key to the value of that property, and \<open>inspect\<close> is \<open>util.inspect\<close>
  on such a value.
\<close>

definition columnCountOf :: "'k list \<Rightarrow> TableOptions \<Rightarrow> int" where
  "columnCountOf keys options =
     (if indexColumn options then int (length keys) + 1 else int (length keys))"

definition columnNamesOf :: "('k \<Rightarrow> jsstring) \<Rightarrow> 'k list \<Rightarrow> TableOptions \<Rightarrow> jsstring list" where
  "columnNamesOf keyToString keys options =
     (if indexColumn options then ascii ''(index)'' # map keyToString keys
      else map keyToString keys)"

definition tableContentOf ::
  "('v \<Rightarrow> jsstring) \<Rightarrow> ('k \<Rightarrow> 'v) list \<Rightarrow> 'k list \<Rightarrow> TableOptions \<Rightarrow> jsstring list list" where
  "tableContentOf inspect items keys options =
     (let tableContent = map (\<lambda>item. map (\<lambda>key. inspect (item key)) keys) items
      in if indexColumn options
         then map (\<lambda>(row, i). numberToString (int i) # row)
                (zip tableContent [0..<length tableContent])
         else tableContent)"

text \<open>Every row of the table content has one cell for each column name, so the read
  \<open>row ! i\<close> is in range.\<close>

definition naturalWidths :: "jsstring list \<Rightarrow> jsstring list list \<Rightarrow> int list" where
  "naturalWidths columnNames tableContent =
     map (\<lambda>(columnName, i).
            fold max (map (\<lambda>row. int (length (row ! i)) + 2) tableContent)
              (int (length columnName) + 2))
       (zip columnNames [0..<length columnNames])"

definition tooSmallMessage :: "int \<Rightarrow> int \<Rightarrow> jsstring" where
  "tooSmallMessage columnCount width =
     ascii ''The table does not fit. The width should be set to at least ''
     @ numberToString (4 * columnCount + 1)
     @ ascii '' (4 * ColumnCount + 1) for this table to fit (received width ''
     @ numberToString width @ ascii '').''"

definition bugReportMessage :: jsstring where
  "bugReportMessage = ascii
     ''Table does not fit. Please file a bug report as this error should not happen: https://github.com/timvandam/nice-table/issues/new''"

text \<open>The final array literal and its \<open>join\<close>, evaluated from left to right.\<close>

definition renderTable ::
  "jsstring list \<Rightarrow> jsstring list list \<Rightarrow> int list \<Rightarrow> HorizontalAlignment \<Rightarrow> VerticalAlignment \<Rightarrow> (error + jsstring) option" where
  "renderTable columnNames tableContent columnWidths h v =
     (case createTableTop columnWidths of
        Inl e \<Rightarrow> Some (Inl e)
      | Inr topLine \<Rightarrow>
          (case createTableColumnNames columnNames columnWidths h v of
             None \<Rightarrow> None
           | Some (Inl e) \<Rightarrow> Some (Inl e)
           | Some (Inr names) \<Rightarrow>
               (case createTableRows tableContent columnWidths h v of
                  None \<Rightarrow> None
                | Some (Inl e) \<Rightarrow> Some (Inl e)
                | Some (Inr rows) \<Rightarrow>
                    (case createTableBottom columnWidths of
                       Inl e \<Rightarrow> Some (Inl e)
                     | Inr bottomLine \<Rightarrow>
                         Some (Inr (join [NEWLINE] [topLine, names, rows, bottomLine]))))))"

text \<open>The final widths of a call that passes the minimum-width check.\<close>

definition finalWidths ::
  "('k \<Rightarrow> jsstring) \<Rightarrow> ('v \<Rightarrow> jsstring) \<Rightarrow> ('k \<Rightarrow> 'v) list \<Rightarrow> 'k list \<Rightarrow> TableOptions \<Rightarrow> (error + int list) option" where
  "finalWidths keyToString inspect items keys options =
     solveWidths (columnSizing options) (fullWidth options) (maxWidth options)
       (columnCountOf keys options)
       (naturalWidths (columnNamesOf keyToString keys options)
          (tableContentOf inspect items keys options))"

definition createTable ::
  "('k \<Rightarrow> jsstring) \<Rightarrow> ('v \<Rightarrow> jsstring) \<Rightarrow> ('k \<Rightarrow> 'v) list \<Rightarrow> 'k list \<Rightarrow> TableOptions \<Rightarrow> (error + jsstring) option" where
  "createTable keyToString inspect items keys options =
     (let columnCount = columnCountOf keys options;
          columnNames = columnNamesOf keyToString keys options;
          tableContent = tableContentOf inspect items keys options;
          minimumWidth = 4 * columnCount + 1
      in if maxWidth options < minimumWidth
         then (let message = tooSmallMessage columnCount (maxWidth options)
               in if throwIfTooSmall options then Some (Inl (Error message))
                  else Some (Inr message))
         else (case finalWidths keyToString inspect items keys options of
                 None \<Rightarrow> None
               | Some (Inl e) \<Rightarrow> Some (Inl e)
               | Some (Inr columnWidths) \<Rightarrow>
                   if list_ex (\<lambda>columnWidth. columnWidth < 3) columnWidths
                   then Some (Inl (Error bugReportMessage))
                   else renderTable columnNames tableContent columnWidths
                          (horizontalAlignment options) (verticalAlignment options)))"

subsection \<open>Notions used in the statements\<close>

text \<open>The exceptions that the rendering functions can throw.\<close>

definition isRenderingError :: "error \<Rightarrow> bool" where
  "isRenderingError e = (e = RangeError \<or> e = TypeError)"


text \<open>
  The consecutive slices of \<open>n\<close> characters of a text, from left to right: slice
  \<open>k\<close> holds the characters at the positions from \<open>k * n\<close> up to \<open>(k + 1) * n\<close>,
  and there are as many slices as it takes to cover the text.
\<close>

definition slices :: "nat \<Rightarrow> 'a list \<Rightarrow> 'a list list" where
  "slices n cell = map (\<lambda>k. take n (drop (k * n) cell)) [0..<(length cell + n - 1) div n]"

text \<open>
  The shrink step in the words of the specification, in exact arithmetic. The big
  columns are those wider than \<open>averageWidth\<close>. \<open>shrunkBy newWidth\<close> gives every big
  column but the last (in index order) the width \<open>newWidth i\<close>, takes from the last big
  column what is left of the overflow after the amounts removed from the others, and
  leaves every other column as it is. \<open>shrinkSpec\<close> is the step with the new width
  \<open>max averageWidth (floor (shrinkFactor * width))\<close>, where
  \<open>shrinkFactor = 1 - overflow / (sum (big widths) - count (big) * averageWidth)\<close>
  is a fraction and the floor is the floor of the exact product.
\<close>

definition bigColumns :: "int list \<Rightarrow> int \<Rightarrow> nat list" where
  "bigColumns widths averageWidth = filter (\<lambda>i. averageWidth < widths ! i) [0..<length widths]"


definition shrunkBy :: "(nat \<Rightarrow> int) \<Rightarrow> int list \<Rightarrow> int \<Rightarrow> int \<Rightarrow> int list" where
  "shrunkBy newWidth widths averageWidth overflow =
     (let big = bigColumns widths averageWidth;
          removed = (\<Sum>i\<leftarrow>butlast big. widths ! i - newWidth i)
      in map (\<lambda>i. if i \<in> set big
                  then (if i = last big then widths ! i - (overflow - removed) else newWidth i)
                  else widths ! i)
           [0..<length widths])"


text \<open>
  Vertical alignment in the words of the specification. The wrapped cells of a row, the
  rendered height of the row (the largest line count, 0 for a row with no cell), the
  empty lines put before a cell (\<open>H - lineCount\<close> for bottom, half of it rounded down
  for middle, none for top), and the line of a cell at a physical line, which is empty
  past the end of the cell.
\<close>

definition wrappedCells :: "jsstring list \<Rightarrow> int list \<Rightarrow> jsstring list list" where
  "wrappedCells row columnWidths =
     map (\<lambda>i. slices (nat (columnWidths ! i - 2)) (row ! i)) [0..<length columnWidths]"

definition renderedHeight :: "jsstring list list \<Rightarrow> nat" where
  "renderedHeight cells = Max (insert 0 (set (map length cells)))"

definition paddedCell :: "VerticalAlignment \<Rightarrow> nat \<Rightarrow> jsstring list \<Rightarrow> jsstring list" where
  "paddedCell alignment H cellLines =
     replicate (case alignment of
                  VBottom \<Rightarrow> H - length cellLines
                | VMiddle \<Rightarrow> (H - length cellLines) div 2
                | VTop \<Rightarrow> 0) [] @ cellLines"

definition lineAt :: "jsstring list \<Rightarrow> nat \<Rightarrow> jsstring" where
  "lineAt cellLines j = (if j < length cellLines then cellLines ! j else [])"

subsection \<open>The arguments in the store\<close>

text \<open>
  In the source every array and every item record is an object that is passed by
  reference, and \<open>unshift\<close>, the indexed assignments of the solver and the two
  \<open>map\<close> calls act on such objects. For the claim about the arguments the objects
  are kept in a store: a map from addresses to contents for each kind of object, and
  the next free address. \<open>createTableAt\<close> is \<open>createTable\<close> on the addresses of the
  items array and the keys array; it returns the outcome and the store after the call.
  \<open>keys.map\<close> and \<open>items.map\<close> allocate the arrays \<open>columnNames\<close>, the rows and
  \<open>tableContent\<close>; \<open>columnNames.map\<close> allocates \<open>columnWidths\<close>, which the solver
  updates in place. The arrays that \<open>createMultiLineRows\<close> builds are local to one
  call of it, are reachable from nothing else, and stay values. \<open>key.toString\<close> and
  \<open>inspect\<close> are taken to have no effect on the store.
\<close>

record ('k, 'v) heap =
  nextAddr :: nat
  keyArrays :: "nat \<rightharpoonup> 'k list"
  itemArrays :: "nat \<rightharpoonup> nat list"
  itemRecords :: "nat \<rightharpoonup> ('k \<Rightarrow> 'v)"
  stringArrays :: "nat \<rightharpoonup> jsstring list"
  rowArrays :: "nat \<rightharpoonup> nat list"
  numberArrays :: "nat \<rightharpoonup> int list"

definition allocStrings :: "jsstring list \<Rightarrow> ('k, 'v) heap \<Rightarrow> nat \<times> ('k, 'v) heap" where
  "allocStrings xs h =
     (nextAddr h, h\<lparr>nextAddr := Suc (nextAddr h),
                     stringArrays := (stringArrays h)(nextAddr h \<mapsto> xs)\<rparr>)"

definition allocRows :: "nat list \<Rightarrow> ('k, 'v) heap \<Rightarrow> nat \<times> ('k, 'v) heap" where
  "allocRows rows h =
     (nextAddr h, h\<lparr>nextAddr := Suc (nextAddr h),
                     rowArrays := (rowArrays h)(nextAddr h \<mapsto> rows)\<rparr>)"

definition allocNumbers :: "int list \<Rightarrow> ('k, 'v) heap \<Rightarrow> nat \<times> ('k, 'v) heap" where
  "allocNumbers xs h =
     (nextAddr h, h\<lparr>nextAddr := Suc (nextAddr h),
                     numberArrays := (numberArrays h)(nextAddr h \<mapsto> xs)\<rparr>)"

text \<open>Reading an array. The addresses read below are addresses that an allocation
  of the same call returned, so the array is there.\<close>

definition readStrings :: "('k, 'v) heap \<Rightarrow> nat \<Rightarrow> jsstring list" where
  "readStrings h a = (case stringArrays h a of Some xs \<Rightarrow> xs | None \<Rightarrow> [])"

definition readRows :: "('k, 'v) heap \<Rightarrow> nat \<Rightarrow> nat list" where
  "readRows h a = (case rowArrays h a of Some xs \<Rightarrow> xs | None \<Rightarrow> [])"

definition readNumbers :: "('k, 'v) heap \<Rightarrow> nat \<Rightarrow> int list" where
  "readNumbers h a = (case numberArrays h a of Some xs \<Rightarrow> xs | None \<Rightarrow> [])"

text \<open>\<open>array.unshift (x)\<close> on the array of strings at an address, and the writes of the
  solver to the array of numbers at an address.\<close>

definition unshiftString :: "nat \<Rightarrow> jsstring \<Rightarrow> ('k, 'v) heap \<Rightarrow> ('k, 'v) heap" where
  "unshiftString a x h = h\<lparr>stringArrays := (stringArrays h)(a \<mapsto> x # readStrings h a)\<rparr>"

definition writeNumbers :: "nat \<Rightarrow> int list \<Rightarrow> ('k, 'v) heap \<Rightarrow> ('k, 'v) heap" where
  "writeNumbers a xs h = h\<lparr>numberArrays := (numberArrays h)(a \<mapsto> xs)\<rparr>"

text \<open>\<open>items.map ((item) => keys.map ((key) => inspect (item[key])))\<close>: one new array
  for each item, in order.\<close>

fun allocRowsOf ::
  "('v \<Rightarrow> jsstring) \<Rightarrow> 'k list \<Rightarrow> ('k \<Rightarrow> 'v) list \<Rightarrow> ('k, 'v) heap \<Rightarrow> nat list \<times> ('k, 'v) heap" where
  "allocRowsOf inspect keys [] h = ([], h)"
| "allocRowsOf inspect keys (item # items) h =
     (let (a, h1) = allocStrings (map (\<lambda>key. inspect (item key)) keys) h;
          (rest, h2) = allocRowsOf inspect keys items h1
      in (a # rest, h2))"

text \<open>\<open>tableContent.forEach ((row, i) => row.unshift (i.toString ()))\<close>.\<close>

fun unshiftIndices :: "nat list \<Rightarrow> nat \<Rightarrow> ('k, 'v) heap \<Rightarrow> ('k, 'v) heap" where
  "unshiftIndices [] i h = h"
| "unshiftIndices (a # rest) i h =
     unshiftIndices rest (Suc i) (unshiftString a (numberToString (int i)) h)"

text \<open>
  The items array holds the addresses of the item records. An address that holds no
  array or no record where the types of the source promise one makes the call throw a
  \<open>TypeError\<close> before it writes anything.
\<close>

fun lookupAll :: "(nat \<rightharpoonup> 'a) \<Rightarrow> nat list \<Rightarrow> 'a list option" where
  "lookupAll m [] = Some []"
| "lookupAll m (a # rest) =
     (case m a of None \<Rightarrow> None
      | Some x \<Rightarrow> (case lookupAll m rest of None \<Rightarrow> None | Some xs \<Rightarrow> Some (x # xs)))"

definition createTableAt ::
  "('k \<Rightarrow> jsstring) \<Rightarrow> ('v \<Rightarrow> jsstring) \<Rightarrow> nat \<Rightarrow> nat \<Rightarrow> TableOptions \<Rightarrow> ('k, 'v) heap
     \<Rightarrow> (error + jsstring) option \<times> ('k, 'v) heap" where
  "createTableAt keyToString inspect itemsAddr keysAddr options h =
     (case keyArrays h keysAddr of
        None \<Rightarrow> (Some (Inl TypeError), h)
      | Some keys \<Rightarrow>
     (case itemArrays h itemsAddr of
        None \<Rightarrow> (Some (Inl TypeError), h)
      | Some references \<Rightarrow>
     (case lookupAll (itemRecords h) references of
        None \<Rightarrow> (Some (Inl TypeError), h)
      | Some items \<Rightarrow>
         (let (namesAddr, h1) = allocStrings (map keyToString keys) h;
              (rowAddrs, h2) = allocRowsOf inspect keys items h1;
              (contentAddr, h3) = allocRows rowAddrs h2;
              h4 = (if indexColumn options
                    then unshiftIndices (readRows h3 contentAddr) 0
                           (unshiftString namesAddr (ascii ''(index)'') h3)
                    else h3);
              columnCount = (if indexColumn options then int (length keys) + 1
                             else int (length keys));
              columnNames = readStrings h4 namesAddr;
              tableContent = map (readStrings h4) (readRows h4 contentAddr);
              minimumWidth = 4 * columnCount + 1
          in if maxWidth options < minimumWidth
             then (let message = tooSmallMessage columnCount (maxWidth options)
                   in if throwIfTooSmall options then (Some (Inl (Error message)), h4)
                      else (Some (Inr message), h4))
             else (let (widthsAddr, h5) = allocNumbers (naturalWidths columnNames tableContent) h4
                   in case solveWidths (columnSizing options) (fullWidth options)
                             (maxWidth options) columnCount (readNumbers h5 widthsAddr) of
                        None \<Rightarrow> (None, h5)
                      | Some (Inl e) \<Rightarrow> (Some (Inl e), h5)
                      | Some (Inr solved) \<Rightarrow>
                          (let h6 = writeNumbers widthsAddr solved h5;
                               columnWidths = readNumbers h6 widthsAddr
                           in if list_ex (\<lambda>columnWidth. columnWidth < 3) columnWidths
                              then (Some (Inl (Error bugReportMessage)), h6)
                              else (renderTable columnNames tableContent columnWidths
                                      (horizontalAlignment options) (verticalAlignment options),
                                    h6)))))))"

text \<open>Two stores agree on every object below an address.\<close>

definition sameBelow :: "nat \<Rightarrow> ('k, 'v) heap \<Rightarrow> ('k, 'v) heap \<Rightarrow> bool" where
  "sameBelow n h h' =
     (\<forall>a<n. keyArrays h' a = keyArrays h a \<and> itemArrays h' a = itemArrays h a
           \<and> itemRecords h' a = itemRecords h a \<and> stringArrays h' a = stringArrays h a
           \<and> rowArrays h' a = rowArrays h a \<and> numberArrays h' a = numberArrays h a)"

section \<open>Properties\<close>

subsection \<open>Sequencing of fallible computations\<close>

lemma mapE_Inl: "mapE f xs = Inl e \<Longrightarrow> \<exists>x\<in>set xs. f x = Inl e"
  by (induction xs) (auto split: sum.splits)

lemma mapC_Inl: "mapC f xs = Some (Inl e) \<Longrightarrow> \<exists>x\<in>set xs. f x = Some (Inl e)"
  by (induction xs) (auto split: sum.splits option.splits)

lemma mapE_Inr: "(\<And>x. x \<in> set xs \<Longrightarrow> f x = Inr (g x)) \<Longrightarrow> mapE f xs = Inr (map g xs)"
  by (induction xs) auto

lemma mapC_Inr:
  "(\<And>x. x \<in> set xs \<Longrightarrow> f x = Some (Inr (g x))) \<Longrightarrow> mapC f xs = Some (Inr (map g xs))"
  by (induction xs) auto

subsection \<open>Which errors a call can raise\<close>

lemma repeat_error: "repeat s n = Inl e \<Longrightarrow> isRenderingError e"
  by (auto simp: repeat_def isRenderingError_def split: if_splits)

lemma borderLine_error: "borderLine l m r ws = Inl e \<Longrightarrow> isRenderingError e"
  by (auto simp: borderLine_def split: sum.splits dest!: mapE_Inl repeat_error)

lemma centerText_error: "centerText t w = Inl e \<Longrightarrow> isRenderingError e"
  by (auto simp: centerText_def Let_def split: sum.splits dest!: repeat_error)

lemma createCell_error: "createCell cells h p = Inl e \<Longrightarrow> isRenderingError e"
  by (cases p) (auto simp: createCell_def isRenderingError_def split: if_splits option.splits
      dest!: centerText_error)

lemma createRow_error: "createRow cells ws h = Inl e \<Longrightarrow> isRenderingError e"
  by (auto simp: createRow_def split: sum.splits dest!: mapE_Inl createCell_error)

lemma splitCell_error: "splitCell row ws i = Some (Inl e) \<Longrightarrow> isRenderingError e"
  by (auto simp: splitCell_def isRenderingError_def split: option.splits)

lemma createMultiLineRows_error:
  "createMultiLineRows row ws h v = Some (Inl e) \<Longrightarrow> isRenderingError e"
  by (auto simp: createMultiLineRows_def Let_def split: option.splits sum.splits
      dest!: mapC_Inl mapE_Inl splitCell_error createRow_error)

lemma createTableRows_error:
  "createTableRows content ws h v = Some (Inl e) \<Longrightarrow> isRenderingError e"
  by (auto simp: createTableRows_def split: option.splits sum.splits
      dest!: mapC_Inl createMultiLineRows_error)

lemma createTableColumnNames_error:
  "createTableColumnNames names ws h v = Some (Inl e) \<Longrightarrow> isRenderingError e"
  by (auto simp: createTableColumnNames_def createTableMiddleLine_def
      split: option.splits sum.splits dest!: createMultiLineRows_error borderLine_error)

lemma renderTable_error:
  "renderTable names content ws h v = Some (Inl e) \<Longrightarrow> isRenderingError e"
  by (auto simp: renderTable_def createTableTop_def createTableBottom_def
      split: option.splits sum.splits
      dest!: createTableColumnNames_error createTableRows_error borderLine_error)

lemma solveWidths_error:
  "solveWidths sizing full w n ws = Some (Inl e) \<Longrightarrow> \<exists>s. e = Error (unknownSizingMessage s)"
  by (auto simp: solveWidths_def sizeColumns_def Let_def
      split: sum.splits ColumnSizing.splits if_splits list.splits)

lemma borderLine_starts:
  "borderLine l m r ws = Inr out \<Longrightarrow> \<exists>rest. out = l @ rest"
  by (auto simp: borderLine_def split: sum.splits)

lemma renderTable_starts:
  assumes "renderTable names content ws h v = Some (Inr out)"
  shows "\<exists>rest. out = TOP_LEFT @ rest"
  using assms
  by (auto simp: renderTable_def createTableTop_def split: sum.splits option.splits
      dest!: borderLine_starts)

lemma tooSmallMessage_starts: "\<exists>rest. tooSmallMessage c w = 0x54 # 0x68 # rest"
  by (simp add: tooSmallMessage_def ascii_def)

lemma bugReportMessage_starts: "\<exists>rest. bugReportMessage = 0x54 # 0x61 # rest"
  by (simp add: bugReportMessage_def ascii_def)

lemma unknownSizingMessage_starts: "\<exists>rest. unknownSizingMessage s = 0x55 # rest"
  by (simp add: unknownSizingMessage_def ascii_def)

subsection \<open>The minimum-width check\<close>

text \<open>
  Claim C1. Let \<open>columnCount\<close> be the number of keys, plus one when \<open>indexColumn\<close> is
  set. If \<open>maxWidth < 4 * columnCount + 1\<close>, the call fails before any layout: with
  \<open>throwIfTooSmall\<close> it throws an error whose message names \<open>4 * columnCount + 1\<close> and
  the received \<open>maxWidth\<close>, and without it the call returns that message as its result.
  If \<open>4 * columnCount + 1 \<le> maxWidth\<close>, the call neither throws that error nor returns
  that message.
\<close>

theorem minimum_width_check:
  fixes keyToString :: "'k \<Rightarrow> jsstring" and inspect :: "'v \<Rightarrow> jsstring"
  assumes n: "columnCount = int (length keys) + (if indexColumn options then 1 else 0)"
  defines "message \<equiv> ascii ''The table does not fit. The width should be set to at least ''
     @ numberToString (4 * columnCount + 1)
     @ ascii '' (4 * ColumnCount + 1) for this table to fit (received width ''
     @ numberToString (maxWidth options) @ ascii '').''"
  shows "(maxWidth options < 4 * columnCount + 1 \<and> throwIfTooSmall options \<longrightarrow>
            createTable keyToString inspect items keys options = Some (Inl (Error message)))
       \<and> (maxWidth options < 4 * columnCount + 1 \<and> \<not> throwIfTooSmall options \<longrightarrow>
            createTable keyToString inspect items keys options = Some (Inr message))
       \<and> (4 * columnCount + 1 \<le> maxWidth options \<longrightarrow>
            createTable keyToString inspect items keys options \<noteq> Some (Inl (Error message))
          \<and> createTable keyToString inspect items keys options \<noteq> Some (Inr message))"
proof -
  have cc: "columnCountOf keys options = columnCount"
    by (simp add: columnCountOf_def n)
  have msg: "tooSmallMessage columnCount (maxWidth options) = message"
    by (simp add: tooSmallMessage_def message_def)
  have small: "maxWidth options < 4 * columnCount + 1 \<Longrightarrow>
     createTable keyToString inspect items keys options =
       (if throwIfTooSmall options then Some (Inl (Error message)) else Some (Inr message))"
    by (simp add: createTable_def cc msg Let_def)
  have large: "createTable keyToString inspect items keys options \<noteq> Some (Inl (Error message))
     \<and> createTable keyToString inspect items keys options \<noteq> Some (Inr message)"
    if ok: "4 * columnCount + 1 \<le> maxWidth options"
  proof -
    obtain r1 where m: "message = 0x54 # 0x68 # r1"
      using tooSmallMessage_starts[of columnCount "maxWidth options"] msg by auto
    obtain r2 where b: "bugReportMessage = 0x54 # 0x61 # r2"
      using bugReportMessage_starts by auto
    have nb: "bugReportMessage \<noteq> message" unfolding m b by simp
    have ns: "unknownSizingMessage s \<noteq> message" for s
      using unknownSizingMessage_starts[of s] m by auto
    have nr: "renderTable a b c d e \<noteq> Some (Inr message)" for a b c d e
      using renderTable_starts[of a b c d e message] m by (auto simp: TOP_LEFT_def)
    have ne: "renderTable a b c d e \<noteq> Some (Inl (Error message))" for a b c d e
      using renderTable_error[of a b c d e "Error message"]
      by (auto simp: isRenderingError_def)
    have nf: "finalWidths keyToString inspect items keys options \<noteq> Some (Inl (Error message))"
      unfolding finalWidths_def using solveWidths_error ns by (metis error.inject)
    show ?thesis
      using ok nb nr ne nf
      by (auto simp: createTable_def cc Let_def split: option.splits sum.splits)
  qed
  show ?thesis using small large by auto
qed

theorem minimum_width_check_witness:
  "createTable id numberToString [] [ascii ''a'', ascii ''b''] (defaultOptions\<lparr>maxWidth := 8\<rparr>)
     = Some (Inl (Error (ascii ''The table does not fit. The width should be set to at least 9 (4 * ColumnCount + 1) for this table to fit (received width 8).'')))
   \<and> createTable id numberToString [] [ascii ''a'']
        (defaultOptions\<lparr>maxWidth := 8, throwIfTooSmall := False, indexColumn := True\<rparr>)
     = Some (Inr (ascii ''The table does not fit. The width should be set to at least 9 (4 * ColumnCount + 1) for this table to fit (received width 8).''))
   \<and> createTable id numberToString [] [ascii ''a'', ascii ''b''] (defaultOptions\<lparr>maxWidth := 9\<rparr>)
     \<noteq> Some (Inl (Error (ascii ''The table does not fit. The width should be set to at least 9 (4 * ColumnCount + 1) for this table to fit (received width 9).'')))"
  using minimum_width_check[where columnCount = 2 and keys = "[ascii ''a'', ascii ''b'']"
      and options = "defaultOptions\<lparr>maxWidth := 8\<rparr>" and keyToString = id
      and inspect = numberToString and items = "[]"]
    minimum_width_check[where columnCount = 2 and keys = "[ascii ''a'']"
      and options = "defaultOptions\<lparr>maxWidth := 8, throwIfTooSmall := False, indexColumn := True\<rparr>"
      and keyToString = id and inspect = numberToString and items = "[]"]
    minimum_width_check[where columnCount = 2 and keys = "[ascii ''a'', ascii ''b'']"
      and options = "defaultOptions\<lparr>maxWidth := 9\<rparr>" and keyToString = id
      and inspect = numberToString and items = "[]"]
  by (simp add: defaultOptions_def numberToString_def ascii_def)

subsection \<open>The cell wrapper\<close>

lemma slices_Nil: "0 < n \<Longrightarrow> slices n [] = []"
  by (simp add: slices_def)

lemma slices_step:
  assumes "0 < n" "cell \<noteq> []"
  shows "slices n cell = take n cell # slices n (drop n cell)"
proof -
  have cnt: "(length cell + n - 1) div n = Suc ((length cell - n + n - 1) div n)"
  proof (cases "n \<le> length cell")
    case True
    then have "length cell + n - 1 = (length cell - n + n - 1) + 1 * n" using assms by simp
    then show ?thesis using assms by (metis div_mult_self1 add.commute less_numeral_extra(3) mult.commute plus_1_eq_Suc)
  next
    case False
    then have l: "length cell < n" by simp
    have p: "0 < length cell" using assms by simp
    have a: "n * 1 \<le> length cell + n - 1" using p by arith
    have b: "length cell + n - 1 < n * Suc 1" using l by arith
    have "(length cell + n - 1) div n = 1"
      by (rule div_nat_eqI[OF a b])
    moreover have "(length cell - n + n - 1) div n = 0" using l by simp
    ultimately show ?thesis by simp
  qed
  have upt: "[0..<Suc m] = 0 # map Suc [0..<m]" for m
    by (simp add: upt_conv_Cons map_Suc_upt del: upt_Suc)
  have "slices n cell = map (\<lambda>k. take n (drop (k * n) cell)) [0..<Suc ((length cell - n + n - 1) div n)]"
    by (simp only: slices_def cnt)
  also have "\<dots> = take n cell # map (\<lambda>k. take n (drop (Suc k * n) cell)) [0..<(length cell - n + n - 1) div n]"
    by (simp only: upt list.map map_map o_def) simp
  also have "map (\<lambda>k. take n (drop (Suc k * n) cell)) [0..<(length cell - n + n - 1) div n]
      = slices n (drop n cell)"
    by (simp add: slices_def add.commute)
  finally show ?thesis .
qed

lemma wrapLoop_slices:
  "1 \<le> innerWidth \<Longrightarrow> wrapLoop innerWidth cell acc = Some (acc @ slices (nat innerWidth) cell)"
proof (induction cell arbitrary: acc rule: length_induct)
  case (1 cell)
  show ?case
  proof (cases "cell = []")
    case True
    then show ?thesis using 1(2) by (subst wrapLoop.simps) (simp add: slices_Nil)
  next
    case False
    have s0: "slice cell 0 innerWidth = take (nat innerWidth) cell"
      using 1(2) by (simp add: slice_def sliceIndex_def min_def)
    have s1: "sliceFrom cell innerWidth = drop (nat innerWidth) cell"
      using 1(2) by (simp add: sliceFrom_def sliceIndex_def min_def)
    have shorter: "length (drop (nat innerWidth) cell) < length cell"
      using False 1(2) by simp
    show ?thesis
      using False 1(2) 1(1)[rule_format, OF shorter]
      by (subst wrapLoop.simps) (simp add: s0 s1 slices_step[of "nat innerWidth" cell])
  qed
qed

lemma concat_slices: "0 < n \<Longrightarrow> concat (slices n cell) = cell"
proof (induction cell rule: length_induct)
  case (1 cell)
  show ?case
  proof (cases "cell = []")
    case True then show ?thesis using 1(2) by (simp add: slices_Nil)
  next
    case False
    then have "length (drop n cell) < length cell" using 1(2) by simp
    then show ?thesis using 1 False by (simp add: slices_step)
  qed
qed

lemma slices_lengths:
  assumes "0 < n" "l \<in> set (slices n cell)"
  shows "1 \<le> length l \<and> length l \<le> n \<and> set l \<subseteq> set cell"
proof -
  obtain k where k: "k < (length cell + n - 1) div n" and l: "l = take n (drop (k * n) cell)"
    using assms(2) by (auto simp: slices_def)
  have "k * n < length cell"
  proof -
    have "Suc k \<le> (length cell + n - 1) div n" using k by simp
    then have "Suc k * n \<le> ((length cell + n - 1) div n) * n" by (rule mult_le_mono1)
    also have "\<dots> \<le> length cell + n - 1" by simp
    finally show ?thesis using assms(1) by simp
  qed
  then show ?thesis using l assms(1)
    by (auto dest: in_set_takeD in_set_dropD)
qed


subsection \<open>Shrinking and growing\<close>

lemma sum_list_update_int:
  fixes xs :: "int list"
  shows "i < length xs \<Longrightarrow> sum_list (xs[i := v]) = sum_list xs - xs ! i + v"
proof (induction xs arbitrary: i)
  case Nil
  then show ?case by simp
next
  case (Cons x xs)
  then show ?case by (cases i) auto
qed

lemma bigColumnIndicesOf_bound: "i \<in> set (bigColumnIndicesOf ws m) \<Longrightarrow> i < length ws"
  by (simp add: bigColumnIndicesOf_def)

lemma smallColumnIndicesOf_bound: "i \<in> set (smallColumnIndicesOf ws m) \<Longrightarrow> i < length ws"
  by (simp add: smallColumnIndicesOf_def)

lemma distinct_bigColumnIndicesOf: "distinct (bigColumnIndicesOf ws m)"
  by (simp add: bigColumnIndicesOf_def)

lemma distinct_smallColumnIndicesOf: "distinct (smallColumnIndicesOf ws m)"
  by (simp add: smallColumnIndicesOf_def)

text \<open>The loop of \<open>shrinkColumns\<close> over distinct indices, column by column.\<close>

lemma fold_shrinkStep:
  assumes "distinct js" "\<forall>j\<in>set js. j < length ws"
  shows "fold (shrinkStep f m) js (ws, ov, bw) =
     (map (\<lambda>i. if i \<in> set js then max m (floorTimes f (ws ! i)) else ws ! i) [0..<length ws],
      ov - (\<Sum>j\<leftarrow>js. ws ! j - max m (floorTimes f (ws ! j))),
      bw - (\<Sum>j\<leftarrow>js. ws ! j - max m (floorTimes f (ws ! j))))"
  using assms
proof (induction js arbitrary: ws ov bw)
  case Nil
  then show ?case by (simp add: map_nth)
next
  case (Cons j js)
  let ?g = "\<lambda>w. max m (floorTimes f w)"
  let ?ws = "ws[j := ?g (ws ! j)]"
  have j: "j < length ws" "j \<notin> set js" using Cons.prems by auto
  have same: "?ws ! i = ws ! i" if "i \<in> set js" for i
    using that j by (metis nth_list_update_neq)
  have sums: "(\<Sum>i\<leftarrow>js. ?ws ! i - ?g (?ws ! i)) = (\<Sum>i\<leftarrow>js. ws ! i - ?g (ws ! i))"
    by (rule arg_cong[where f = sum_list], rule map_cong) (simp_all add: same)
  have maps: "map (\<lambda>i. if i \<in> set js then ?g (?ws ! i) else ?ws ! i) [0..<length ?ws]
      = map (\<lambda>i. if i \<in> set (j # js) then ?g (ws ! i) else ws ! i) [0..<length ws]"
    using j by (auto simp: same nth_list_update)
  have "fold (shrinkStep f m) (j # js) (ws, ov, bw)
      = fold (shrinkStep f m) js (?ws, ov - (ws ! j - ?g (ws ! j)), bw - (ws ! j - ?g (ws ! j)))"
    by (simp add: shrinkStep_def Let_def)
  also have "\<dots> = (map (\<lambda>i. if i \<in> set js then ?g (?ws ! i) else ?ws ! i) [0..<length ?ws],
      ov - (ws ! j - ?g (ws ! j)) - (\<Sum>i\<leftarrow>js. ?ws ! i - ?g (?ws ! i)),
      bw - (ws ! j - ?g (ws ! j)) - (\<Sum>i\<leftarrow>js. ?ws ! i - ?g (?ws ! i)))"
    using Cons.prems by (intro Cons.IH) auto
  finally show ?case by (simp only: sums maps) simp
qed

lemma fold_growStep:
  assumes "distinct js" "\<forall>j\<in>set js. j < length ws"
  shows "fold (growStep f) js (ws, g, sw) =
     (map (\<lambda>i. if i \<in> set js then floorTimes f (ws ! i) else ws ! i) [0..<length ws],
      g - (\<Sum>j\<leftarrow>js. floorTimes f (ws ! j) - ws ! j),
      sw + (\<Sum>j\<leftarrow>js. floorTimes f (ws ! j) - ws ! j))"
  using assms
proof (induction js arbitrary: ws g sw)
  case Nil
  then show ?case by (simp add: map_nth)
next
  case (Cons j js)
  let ?g = "\<lambda>w. floorTimes f w"
  let ?ws = "ws[j := ?g (ws ! j)]"
  have j: "j < length ws" "j \<notin> set js" using Cons.prems by auto
  have same: "?ws ! i = ws ! i" if "i \<in> set js" for i
    using that j by (metis nth_list_update_neq)
  have sums: "(\<Sum>i\<leftarrow>js. ?g (?ws ! i) - ?ws ! i) = (\<Sum>i\<leftarrow>js. ?g (ws ! i) - ws ! i)"
    by (rule arg_cong[where f = sum_list], rule map_cong) (simp_all add: same)
  have maps: "map (\<lambda>i. if i \<in> set js then ?g (?ws ! i) else ?ws ! i) [0..<length ?ws]
      = map (\<lambda>i. if i \<in> set (j # js) then ?g (ws ! i) else ws ! i) [0..<length ws]"
    using j by (auto simp: same nth_list_update)
  have "fold (growStep f) (j # js) (ws, g, sw)
      = fold (growStep f) js (?ws, g - (?g (ws ! j) - ws ! j), sw + (?g (ws ! j) - ws ! j))"
    by (simp add: growStep_def Let_def)
  also have "\<dots> = (map (\<lambda>i. if i \<in> set js then ?g (?ws ! i) else ?ws ! i) [0..<length ?ws],
      g - (?g (ws ! j) - ws ! j) - (\<Sum>i\<leftarrow>js. ?g (?ws ! i) - ?ws ! i),
      sw + (?g (ws ! j) - ws ! j) + (\<Sum>i\<leftarrow>js. ?g (?ws ! i) - ?ws ! i))"
    using Cons.prems by (intro Cons.IH) auto
  finally show ?case by (simp only: sums maps) simp
qed

lemma bigColumnIndicesOf_Finite:
  "bigColumnIndicesOf ws (Finite m) = filter (\<lambda>i. m < ws ! i) [0..<length ws]"
  by (simp add: bigColumnIndicesOf_def)

lemma last_notin_butlast: "distinct xs \<Longrightarrow> xs \<noteq> [] \<Longrightarrow> last xs \<notin> set (butlast xs)"
  by (metis append_butlast_last_id distinct_append disjoint_iff list.set_intros(1))

lemma shrinkColumns_unfold:
  fixes ws :: "int list" and m ov :: int
  assumes "bigColumnIndicesOf ws (Finite m) \<noteq> []"
  defines "big \<equiv> bigColumnIndicesOf ws (Finite m)"
  defines "f \<equiv> fl64 (1 - fl64 (of_int ov / of_int ((\<Sum>i\<leftarrow>big. ws ! i) - int (length big) * m)))"
  shows "shrinkColumns ws (Finite m) ov =
     (case fold (shrinkStep f m) (butlast big) (ws, ov, (\<Sum>i\<leftarrow>big. ws ! i)) of
        (widths, remaining, unused) \<Rightarrow> widths[last big := widths ! last big - remaining])"
  unfolding shrinkColumns_def Let_def f_def big_def
  using assms(1) by (simp only: if_False number.case)

lemma shrinkColumns_Finite:
  fixes ws :: "int list" and m ov :: int
  assumes "bigColumnIndicesOf ws (Finite m) \<noteq> []"
  defines "big \<equiv> bigColumnIndicesOf ws (Finite m)"
  defines "f \<equiv> fl64 (1 - fl64 (of_int ov / of_int ((\<Sum>i\<leftarrow>big. ws ! i) - int (length big) * m)))"
  shows "shrinkColumns ws (Finite m) ov =
     (map (\<lambda>i. if i \<in> set (butlast big) then max m (floorTimes f (ws ! i)) else ws ! i) [0..<length ws])
       [last big := ws ! last big - (ov - (\<Sum>j\<leftarrow>butlast big. ws ! j - max m (floorTimes f (ws ! j))))]"
proof -
  have d: "distinct (butlast big)" unfolding big_def
    by (simp add: distinct_butlast distinct_bigColumnIndicesOf)
  have b: "\<forall>j\<in>set (butlast big). j < length ws" unfolding big_def
    by (meson bigColumnIndicesOf_bound in_set_butlastD)
  have l: "last big < length ws" "last big \<notin> set (butlast big)"
    using assms(1) bigColumnIndicesOf_bound[of "last big" ws "Finite m"]
      last_notin_butlast[OF distinct_bigColumnIndicesOf, of ws "Finite m"]
    by (simp_all add: big_def)
  show ?thesis
    unfolding shrinkColumns_unfold[OF assms(1)] big_def[symmetric] f_def[symmetric]
      fold_shrinkStep[OF d b]
    using l by simp
qed

lemma fold_shrinkStep_invariant:
  "\<forall>j\<in>set js. j < length a \<Longrightarrow> fold (shrinkStep f m) js (a, b, c) = (a', b', c') \<Longrightarrow>
      length a' = length a \<and> sum_list a' - b' = sum_list a - b"
proof (induction js arbitrary: a b c)
  case Nil
  then show ?case by simp
next
  case (Cons j js)
  obtain a1 b1 c1 where s: "shrinkStep f m j (a, b, c) = (a1, b1, c1)"
    by (cases "shrinkStep f m j (a, b, c)") auto
  have j: "j < length a" using Cons.prems by simp
  have one: "length a1 = length a" "sum_list a1 - b1 = sum_list a - b"
    using s j by (auto simp: shrinkStep_def Let_def sum_list_update_int)
  have "length a' = length a1 \<and> sum_list a' - b' = sum_list a1 - b1"
    using Cons.prems s one by (intro Cons.IH[of a1 b1 c1]) auto
  then show ?case using one by simp
qed

lemma fold_growStep_invariant:
  "\<forall>j\<in>set js. j < length a \<Longrightarrow> fold (growStep f) js (a, b, c) = (a', b', c') \<Longrightarrow>
      length a' = length a \<and> sum_list a' + b' = sum_list a + b"
proof (induction js arbitrary: a b c)
  case Nil
  then show ?case by simp
next
  case (Cons j js)
  obtain a1 b1 c1 where s: "growStep f j (a, b, c) = (a1, b1, c1)"
    by (cases "growStep f j (a, b, c)") auto
  have j: "j < length a" using Cons.prems by simp
  have one: "length a1 = length a" "sum_list a1 + b1 = sum_list a + b"
    using s j by (auto simp: growStep_def Let_def sum_list_update_int)
  have "length a' = length a1 \<and> sum_list a' + b' = sum_list a1 + b1"
    using Cons.prems s one by (intro Cons.IH[of a1 b1 c1]) auto
  then show ?case using one by simp
qed

text \<open>What \<open>shrinkColumns\<close> returns, in the form of \<open>shrunkBy\<close>: the new width of a
  big column is the maximum of the average width and the floor that the code computes.\<close>

lemma shrinkColumns_shrunkBy:
  "shrinkColumns ws (Finite m) ov =
     shrunkBy (\<lambda>i. max m (floorTimes
         (fl64 (1 - fl64 (of_int ov /
            of_int ((\<Sum>i\<leftarrow>bigColumns ws m. ws ! i) - int (length (bigColumns ws m)) * m))))
         (ws ! i))) ws m ov"
proof (cases "bigColumnIndicesOf ws (Finite m) = []")
  case True
  then show ?thesis
    by (simp add: shrinkColumns_def shrunkBy_def bigColumns_def bigColumnIndicesOf_Finite
        Let_def map_nth)
next
  case False
  let ?big = "bigColumnIndicesOf ws (Finite m)"
  have bc: "bigColumns ws m = ?big" by (simp add: bigColumns_def bigColumnIndicesOf_Finite)
  have l: "last ?big < length ws" "last ?big \<notin> set (butlast ?big)" "last ?big \<in> set ?big"
    using False bigColumnIndicesOf_bound[of "last ?big" ws "Finite m"]
      last_notin_butlast[OF distinct_bigColumnIndicesOf, of ws "Finite m"]
    by simp_all
  have mem: "i \<in> set ?big \<longleftrightarrow> i \<in> set (butlast ?big) \<or> i = last ?big" for i
    using False by (metis append_butlast_last_id in_set_butlastD in_set_conv_decomp
        last_in_set rotate1.simps(2) set_ConsD set_rotate1)
  show ?thesis
    unfolding shrinkColumns_Finite[OF False] bc
    apply (rule nth_equalityI)
     apply (simp add: shrunkBy_def Let_def)
    using l mem
    apply (auto simp: shrunkBy_def bc Let_def nth_list_update)
    done
qed

lemma length_shrunkBy: "length (shrunkBy f ws m ov) = length ws"
  by (simp add: shrunkBy_def Let_def)

lemma length_shrinkColumns: "length (shrinkColumns ws m ov) = length ws"
proof (cases "bigColumnIndicesOf ws m = []")
  case True
  then show ?thesis by (simp add: shrinkColumns_def)
next
  case False
  show ?thesis
  proof (cases m)
    case (Finite x)
    show ?thesis
      unfolding Finite by (simp add: shrinkColumns_shrunkBy length_shrunkBy)
  qed (use False in \<open>simp_all add: shrinkColumns_def Let_def\<close>)
qed

lemma sum_list_shrinkColumns:
  assumes "bigColumnIndicesOf ws (Finite m) \<noteq> []"
  shows "sum_list (shrinkColumns ws (Finite m) ov) = sum_list ws - ov"
proof -
  let ?big = "bigColumnIndicesOf ws (Finite m)"
  define f where "f = fl64 (1 - fl64 (of_int ov / of_int ((\<Sum>i\<leftarrow>?big. ws ! i) - int (length ?big) * m)))"
  obtain widths remaining unused where
    fo: "fold (shrinkStep f m) (butlast ?big) (ws, ov, (\<Sum>i\<leftarrow>?big. ws ! i)) = (widths, remaining, unused)"
    by (cases "fold (shrinkStep f m) (butlast ?big) (ws, ov, (\<Sum>i\<leftarrow>?big. ws ! i))") auto
  have b: "\<forall>j\<in>set (butlast ?big). j < length ws"
    by (meson bigColumnIndicesOf_bound in_set_butlastD)
  have i: "length widths = length ws" "sum_list widths - remaining = sum_list ws - ov"
    using fold_shrinkStep_invariant[OF b fo] by simp_all
  have l: "last ?big < length widths"
    using assms bigColumnIndicesOf_bound[of "last ?big" ws "Finite m"] i by simp
  have "shrinkColumns ws (Finite m) ov = widths[last ?big := widths ! last ?big - remaining]"
    unfolding shrinkColumns_unfold[OF assms] f_def[symmetric] fo by simp
  then show ?thesis using i l by (simp add: sum_list_update_int)
qed

lemma growColumns_Some:
  assumes "growColumns ws m g = Some ws'"
  shows "length ws' = length ws
       \<and> sum_list ws' = (if smallColumnIndicesOf ws m = [] then sum_list ws else sum_list ws + g)"
proof (cases "smallColumnIndicesOf ws m = []")
  case True
  then show ?thesis using assms by (simp add: growColumns_def)
next
  case False
  let ?small = "smallColumnIndicesOf ws m"
  define f where "f = fl64 (1 + fl64 (of_int g / of_int (\<Sum>i\<leftarrow>?small. ws ! i)))"
  obtain widths remaining unused where
    fo: "fold (growStep f) (butlast ?small) (ws, g, (\<Sum>i\<leftarrow>?small. ws ! i)) = (widths, remaining, unused)"
    by (cases "fold (growStep f) (butlast ?small) (ws, g, (\<Sum>i\<leftarrow>?small. ws ! i))") auto
  have b: "\<forall>j\<in>set (butlast ?small). j < length ws"
    by (meson smallColumnIndicesOf_bound in_set_butlastD)
  have i: "length widths = length ws" "sum_list widths + remaining = sum_list ws + g"
    using fold_growStep_invariant[OF b fo] by simp_all
  have l: "last ?small < length widths"
    using False smallColumnIndicesOf_bound[of "last ?small" ws m] i by simp
  have "ws' = widths[last ?small := widths ! last ?small + remaining]"
    using assms False fo unfolding growColumns_def Let_def f_def[symmetric]
    by (simp split: if_splits)
  then show ?thesis using i l False by (simp add: sum_list_update_int)
qed

lemma growColumns_defined:
  assumes "\<forall>w\<in>set ws. 0 < w"
  shows "\<exists>ws'. growColumns ws m g = Some ws'"
proof (cases "smallColumnIndicesOf ws m = []")
  case True
  then show ?thesis by (simp add: growColumns_def)
next
  case False
  let ?small = "smallColumnIndicesOf ws m"
  have pos: "0 < ws ! i" if "i \<in> set ?small" for i
    using that assms smallColumnIndicesOf_bound[of i ws m] by simp
  have "0 < (\<Sum>i\<leftarrow>xs. ws ! i)" if "xs \<noteq> []" "set xs \<subseteq> set ?small" for xs
    using that
  proof (induction xs)
    case Nil
    then show ?case by simp
  next
    case (Cons x xs)
    then show ?case using pos[of x] by (cases "xs = []") (auto simp: add_pos_pos)
  qed
  then have "(\<Sum>i\<leftarrow>?small. ws ! i) \<noteq> 0" using False by fastforce
  then show ?thesis using False
    by (simp add: growColumns_def Let_def split: prod.splits)
qed

lemma sum_list_le_length_times:
  fixes xs :: "int list"
  shows "\<forall>x\<in>set xs. x \<le> m \<Longrightarrow> sum_list xs \<le> int (length xs) * m"
  by (induction xs) (auto simp: algebra_simps)

lemma big_columns_exist:
  fixes ws :: "int list"
  assumes "ws \<noteq> []" "0 \<le> a" "a < sum_list ws"
  shows "bigColumnIndicesOf ws (Finite (a div int (length ws))) \<noteq> []"
proof
  assume e: "bigColumnIndicesOf ws (Finite (a div int (length ws))) = []"
  have "\<forall>x\<in>set ws. x \<le> a div int (length ws)"
  proof
    fix x assume "x \<in> set ws"
    then obtain i where i: "i < length ws" "ws ! i = x" by (auto simp: in_set_conv_nth)
    then have "i \<notin> set (bigColumnIndicesOf ws (Finite (a div int (length ws))))" using e by simp
    then show "x \<le> a div int (length ws)" using i by (auto simp: bigColumnIndicesOf_def)
  qed
  then have "sum_list ws \<le> int (length ws) * (a div int (length ws))"
    by (rule sum_list_le_length_times)
  also have "\<dots> \<le> a"
    using assms(1) by (smt (verit) length_greater_0_conv mult.commute of_nat_0_less_iff
        pos_mod_sign mult_div_mod_eq)
  finally show False using assms(3) by simp
qed

subsection \<open>The solver, case by case\<close>

lemma solveWidths_Stretch:
  assumes "n = int (length ws)" "ws \<noteq> []"
  shows "solveWidths Stretch full width n ws =
     (if width - n - 1 < sum_list ws
      then Some (Inr (shrinkColumns ws (Finite ((width - n - 1) div n)) (sum_list ws - (width - n - 1))))
      else if full \<and> sum_list ws < width - n - 1
      then map_option Inr (growColumns ws (Finite ((width - n - 1) div n)) (width - n - 1 - sum_list ws))
      else Some (Inr ws))"
  using assms
  by (simp add: solveWidths_def sizeColumns_def growToFullWidth_def floorDiv_def Let_def)

lemma fold_max_Max: "fold max rest (w::int) = Max (set (w # rest))"
  by (rule Max.set_eq_fold[symmetric])

lemma solveWidths_Even:
  assumes "n = int (length ws)" "ws \<noteq> []"
  shows "solveWidths Even full width n ws =
     (if width - n - 1 < Max (set ws) * n
      then Some (Inr (shrinkColumns (replicate (length ws) (Max (set ws)))
                        (Finite ((width - n - 1) div n)) (Max (set ws) * n - (width - n - 1))))
      else if full \<and> Max (set ws) * n < width - n - 1
      then map_option Inr (growColumns (replicate (length ws) (Max (set ws)))
                        (Finite ((width - n - 1) div n)) (width - n - 1 - Max (set ws) * n))
      else Some (Inr (replicate (length ws) (Max (set ws)))))"
proof -
  obtain w rest where ws: "ws = w # rest" using assms(2) by (cases ws) auto
  have m: "fold max rest w = Max (set ws)" unfolding ws by (rule fold_max_Max)
  show ?thesis
    using assms(1) unfolding ws
    by (simp add: solveWidths_def sizeColumns_def growToFullWidth_def floorDiv_def Let_def
        m[unfolded ws] del: Max_insert set_simps)
qed

lemma solveWidths_no_columns:
  assumes "sizing = Stretch \<or> sizing = Even"
  shows "solveWidths sizing full width 0 [] = Some (Inr [])"
  using assms
  by (auto simp: solveWidths_def sizeColumns_def growToFullWidth_def floorDiv_def Let_def
      growColumns_def smallColumnIndicesOf_def shrinkColumns_def bigColumnIndicesOf_def)

lemma solveWidths_Unknown: "solveWidths (Unknown s) full width n ws = Some (Inl (Error (unknownSizingMessage s)))"
  by (simp add: solveWidths_def sizeColumns_def)

lemma solveWidths_sum:
  assumes n: "n = int (length ws)" and a: "0 \<le> width - n - 1"
    and s: "solveWidths sizing full width n ws = Some (Inr fw)"
  shows "length fw = length ws \<and> sum_list fw \<le> width - n - 1"
proof (cases "ws = []")
  case True
  then have "sizing = Stretch \<or> sizing = Even"
    using s by (cases sizing) (auto simp: solveWidths_Unknown)
  then show ?thesis using solveWidths_no_columns[of sizing full width] s True n a by simp
next
  case False
  define avail where "avail = width - n - 1"
  have np: "0 < n" using False n by simp
  have core: "length fw = length xs \<and> sum_list fw \<le> avail"
    if xs: "xs \<noteq> []" "length xs = length ws"
      and r: "(if avail < sum_list xs
               then Some (Inr (shrinkColumns xs (Finite (avail div n)) (sum_list xs - avail)))
               else if full \<and> sum_list xs < avail
               then map_option Inr (growColumns xs (Finite (avail div n)) (avail - sum_list xs))
               else Some (Inr xs)) = Some (Inr fw)" for xs
  proof (cases "avail < sum_list xs")
    case True
    have big: "bigColumnIndicesOf xs (Finite (avail div int (length xs))) \<noteq> []"
      using big_columns_exist[OF xs(1) _ True] a by (simp add: avail_def)
    have "fw = shrinkColumns xs (Finite (avail div n)) (sum_list xs - avail)"
      using r True by simp
    then show ?thesis
      using sum_list_shrinkColumns[OF big] length_shrinkColumns xs n by simp
  next
    case nover: False
    show ?thesis
    proof (cases "full \<and> sum_list xs < avail")
      case True
      then have "growColumns xs (Finite (avail div n)) (avail - sum_list xs) = Some fw"
        using r nover by auto
      from growColumns_Some[OF this] show ?thesis using True by (auto split: if_splits)
    next
      case False
      then show ?thesis using r nover by auto
    qed
  qed
  show ?thesis
  proof (cases sizing)
    case Stretch
    show ?thesis
      using core[of ws] s False
      unfolding Stretch solveWidths_Stretch[OF n False] avail_def by simp
  next
    case Even
    have sm: "sum_list (replicate (length ws) (Max (set ws))) = Max (set ws) * n"
      by (simp add: sum_list_replicate n)
    show ?thesis
      using core[of "replicate (length ws) (Max (set ws))"] s False
      unfolding Even solveWidths_Even[OF n False] avail_def sm by simp
  next
    case (Unknown x)
    then show ?thesis using s by (simp add: solveWidths_Unknown)
  qed
qed

subsection \<open>Column names, table content and natural widths\<close>

lemma length_columnNamesOf:
  "int (length (columnNamesOf keyToString keys options)) = columnCountOf keys options"
  by (simp add: columnNamesOf_def columnCountOf_def)

lemma length_tableContentOf:
  "length (tableContentOf inspect items keys options) = length items"
  by (simp add: tableContentOf_def Let_def)

lemma length_rows_tableContentOf:
  assumes "row \<in> set (tableContentOf inspect items keys options)"
  shows "int (length row) = columnCountOf keys options"
  using assms
  by (auto simp: tableContentOf_def columnCountOf_def Let_def split: if_splits
      dest!: set_zip_leftD)

lemma length_naturalWidths: "length (naturalWidths names content) = length names"
  by (simp add: naturalWidths_def)

lemma fold_max_ge: "(x::int) \<le> fold max xs x"
  by (induction xs arbitrary: x) (auto intro: order_trans[OF max.cobounded2])

lemma naturalWidths_ge:
  assumes "i < length names"
  shows "int (length (names ! i)) + 2 \<le> naturalWidths names content ! i"
  using assms by (simp add: naturalWidths_def fold_max_ge)

lemma naturalWidths_positive: "w \<in> set (naturalWidths names content) \<Longrightarrow> 2 \<le> w"
proof -
  assume "w \<in> set (naturalWidths names content)"
  then obtain i where i: "i < length names" "naturalWidths names content ! i = w"
    by (auto simp: in_set_conv_nth length_naturalWidths)
  then show ?thesis using naturalWidths_ge[OF i(1), of content] by simp
qed

lemma count_naturalWidths:
  "columnCountOf keys options =
     int (length (naturalWidths (columnNamesOf keyToString keys options) content))"
  by (simp add: length_naturalWidths length_columnNamesOf)

subsection \<open>The solver returns\<close>

lemma solveWidths_defined:
  assumes n: "n = int (length ws)" and p: "\<forall>w\<in>set ws. 0 < w"
  shows "\<exists>r. solveWidths sizing full width n ws = Some r"
proof (cases "ws = []")
  case True
  then show ?thesis using n
    by (cases sizing) (simp_all add: solveWidths_no_columns solveWidths_Unknown)
next
  case False
  have h: "hd ws \<in> set ws" using False by simp
  have "hd ws \<le> Max (set ws)" by (rule Max_ge[OF _ h]) simp
  moreover have "0 < hd ws" using p h by blast
  ultimately have m: "0 < Max (set ws)" by linarith
  have pe: "\<forall>w\<in>set (replicate (length ws) (Max (set ws))). 0 < w" using m by simp
  show ?thesis
  proof (cases sizing)
    case Stretch
    show ?thesis
      using growColumns_defined[OF p]
      unfolding Stretch solveWidths_Stretch[OF n False] by (metis option.simps(9))
  next
    case Even
    show ?thesis
      using growColumns_defined[OF pe]
      unfolding Even solveWidths_Even[OF n False] by (metis option.simps(9))
  next
    case (Unknown x)
    then show ?thesis by (simp add: solveWidths_Unknown)
  qed
qed

lemma finalWidths_defined:
  "\<exists>r. finalWidths keyToString inspect items keys options = Some r"
  unfolding finalWidths_def
proof (rule solveWidths_defined)
  show "columnCountOf keys options = int (length (naturalWidths (columnNamesOf keyToString keys options)
      (tableContentOf inspect items keys options)))"
    by (rule count_naturalWidths)
  show "\<forall>w\<in>set (naturalWidths (columnNamesOf keyToString keys options)
      (tableContentOf inspect items keys options)). 0 < w"
    using naturalWidths_positive by fastforce
qed

lemma finalWidths_sum:
  assumes "4 * columnCountOf keys options + 1 \<le> maxWidth options"
    and "finalWidths keyToString inspect items keys options = Some (Inr fw)"
  shows "int (length fw) = columnCountOf keys options
       \<and> sum_list fw + columnCountOf keys options + 1 \<le> maxWidth options"
proof -
  have c: "0 \<le> columnCountOf keys options" by (simp add: columnCountOf_def)
  have a: "0 \<le> maxWidth options - columnCountOf keys options - 1" using assms(1) c by simp
  show ?thesis
    using solveWidths_sum[OF count_naturalWidths a assms(2)[unfolded finalWidths_def]]
    by (simp add: length_naturalWidths length_columnNamesOf)
qed

subsection \<open>The shrink step\<close>


subsection \<open>The even strategy\<close>

lemma solveWidths_Even_as_Stretch:
  assumes "n = int (length ws)" "ws \<noteq> []"
  shows "solveWidths Even full width n ws =
         solveWidths Stretch full width n (replicate (length ws) (Max (set ws)))"
proof -
  have l: "n = int (length (replicate (length ws) (Max (set ws))))" using assms by simp
  have ne: "replicate (length ws) (Max (set ws)) \<noteq> []" using assms by simp
  have s: "sum_list (replicate (length ws) (Max (set ws))) = Max (set ws) * n"
    using assms by (simp add: sum_list_replicate)
  show ?thesis
    unfolding solveWidths_Even[OF assms] solveWidths_Stretch[OF l ne] s by simp
qed

text \<open>
  Claim C6, as the code has it. Under the even strategy every column is first set to
  the largest natural width. When the levelled widths fit the budget and the table is
  not grown to the full width (\<open>fullWidth\<close> is off, or the levelled widths fill the
  budget exactly), these are the final widths, so all of them are equal. When the
  levelled widths exceed the budget, the final widths are those of \<open>shrinkColumns\<close> on
  the levelled widths, with the average width and the overflow over the budget, which
  is what the stretch strategy does on its widths; in every case the even strategy is
  the stretch strategy run on the levelled widths.
\<close>

theorem even_sizing:
  fixes keyToString :: "'k \<Rightarrow> jsstring" and inspect :: "'v \<Rightarrow> jsstring"
  assumes c: "columnCount = columnCountOf keys options"
    and w: "natural = naturalWidths (columnNamesOf keyToString keys options)
               (tableContentOf inspect items keys options)"
    and b: "budget = maxWidth options - columnCount - 1"
    and feasible: "4 * columnCount + 1 \<le> maxWidth options"
    and even: "columnSizing options = Even"
    and l: "levelled = replicate (length natural) (Max (set natural))"
  shows "(sum_list levelled \<le> budget \<and> (\<not> fullWidth options \<or> sum_list levelled = budget) \<longrightarrow>
            finalWidths keyToString inspect items keys options = Some (Inr levelled))
       \<and> (budget < sum_list levelled \<longrightarrow>
            finalWidths keyToString inspect items keys options =
              Some (Inr (shrinkColumns levelled (floorDiv budget columnCount)
                           (sum_list levelled - budget))))
       \<and> (0 < columnCount \<longrightarrow>
            finalWidths keyToString inspect items keys options =
              solveWidths Stretch (fullWidth options) (maxWidth options) columnCount levelled)"
proof (cases "natural = []")
  case True
  have "columnCount = int (length natural)"
    unfolding c w by (rule count_naturalWidths)
  then have "columnCount = 0" using True by simp
  then show ?thesis
    using True feasible
    by (simp add: finalWidths_def w[symmetric] c[symmetric] even l solveWidths_no_columns b)
next
  case False
  have n: "columnCount = int (length natural)"
    unfolding c w by (rule count_naturalWidths)
  have s: "sum_list levelled = Max (set natural) * columnCount"
    unfolding l n by (simp add: sum_list_replicate)
  have f: "floorDiv budget columnCount = Finite (budget div columnCount)"
    using n False by (simp add: floorDiv_def)
  show ?thesis
    using solveWidths_Even_as_Stretch[OF n False, of "fullWidth options" "maxWidth options"]
    by (auto simp: finalWidths_def w[symmetric] c[symmetric] b[symmetric] even l[symmetric]
        solveWidths_Even[OF n False] s f)
qed

theorem even_sizing_witness:
  "finalWidths id numberToString [] [ascii ''abcdefgh'', ascii ''q'']
     (defaultOptions\<lparr>maxWidth := 30, columnSizing := Even\<rparr>) = Some (Inr [10, 10])
   \<and> finalWidths id numberToString [] [ascii ''abcdefgh'', ascii ''q'']
     (defaultOptions\<lparr>maxWidth := 12, columnSizing := Even\<rparr>) = Some (Inr [4, 5])"
proof -
  let ?k = "[ascii ''abcdefgh'', ascii ''q'']"
  let ?o1 = "defaultOptions\<lparr>maxWidth := 30, columnSizing := Even\<rparr>"
  let ?o2 = "defaultOptions\<lparr>maxWidth := 12, columnSizing := Even\<rparr>"
  have c1: "(2::int) = columnCountOf ?k ?o1" by code_simp
  have w1: "[10, 3] = naturalWidths (columnNamesOf id ?k ?o1)
              (tableContentOf numberToString [] ?k ?o1)" by code_simp
  have b1: "(27::int) = maxWidth ?o1 - 2 - 1" by code_simp
  have f1: "4 * (2::int) + 1 \<le> maxWidth ?o1" by code_simp
  have s1: "columnSizing ?o1 = Even" by code_simp
  have l: "[10, 10::int] = replicate (length [10, 3::int]) (Max (set [10, 3]))" by code_simp
  have h1: "sum_list [10, 10::int] \<le> 27 \<and> (\<not> fullWidth ?o1 \<or> sum_list [10, 10::int] = 27)"
    by code_simp
  have c2: "(2::int) = columnCountOf ?k ?o2" by code_simp
  have w2: "[10, 3] = naturalWidths (columnNamesOf id ?k ?o2)
              (tableContentOf numberToString [] ?k ?o2)" by code_simp
  have b2: "(9::int) = maxWidth ?o2 - 2 - 1" by code_simp
  have f2: "4 * (2::int) + 1 \<le> maxWidth ?o2" by code_simp
  have s2: "columnSizing ?o2 = Even" by code_simp
  have h2: "(9::int) < sum_list [10, 10]" by simp
  have e2: "shrinkColumns [10, 10] (floorDiv 9 2) (sum_list [10, 10] - 9) = [4, 5]" by code_simp
  show ?thesis
    using even_sizing[OF c1 w1 b1 f1 s1 l] h1 even_sizing[OF c2 w2 b2 f2 s2 l] h2
    unfolding e2 by simp
qed

text \<open>
  The claim as stated does not hold when \<open>fullWidth\<close> is set: two columns of natural
  width 3 in a budget of 9 do not overflow, and they end with the widths 4 and 5.
\<close>

theorem even_sizing_counterexample:
  "naturalWidths (columnNamesOf id [ascii ''a'', ascii ''b'']
       (defaultOptions\<lparr>maxWidth := 12, columnSizing := Even, fullWidth := True\<rparr>))
     (tableContentOf numberToString [\<lambda>k. 1] [ascii ''a'', ascii ''b'']
       (defaultOptions\<lparr>maxWidth := 12, columnSizing := Even, fullWidth := True\<rparr>)) = [3, 3]
   \<and> finalWidths id numberToString [\<lambda>k. 1] [ascii ''a'', ascii ''b'']
       (defaultOptions\<lparr>maxWidth := 12, columnSizing := Even, fullWidth := True\<rparr>)
     = Some (Inr [4, 5])"
  by code_simp

subsection \<open>The full width\<close>

text \<open>
  Claim C2 at the input \<open>createTable ([{a: 1, b: 1}], ['a', 'b'], {maxWidth: 10,
  fullWidth: true})\<close>. The natural widths 3 and 3 leave one character of the budget of
  7 unused; no column is narrower than the average width 3, so \<open>growColumns\<close> finds no
  small column and changes nothing. The call returns a table whose lines are 9
  characters wide, although \<open>fullWidth\<close> asks for 10.
\<close>

theorem full_width_not_reached:
  "finalWidths id numberToString [\<lambda>k. 1] [ascii ''a'', ascii ''b'']
       (defaultOptions\<lparr>maxWidth := 10, fullWidth := True\<rparr>) = Some (Inr [3, 3])
   \<and> map_option (map_sum id (map length \<circ> splitLines))
       (createTable id numberToString [\<lambda>k. 1] [ascii ''a'', ascii ''b'']
          (defaultOptions\<lparr>maxWidth := 10, fullWidth := True\<rparr>))
     = Some (Inr [9, 9, 9, 9, 9])"
  by code_simp

subsection \<open>The check of the final widths\<close>

text \<open>
  Claim C7 at the input \<open>createTable ([], [''])\<close>, with the default \<open>maxWidth\<close> of 80.
  The minimum-width check passes (\<open>5 \<le> 80\<close>), the only column has the natural width
  2, nothing shrinks or grows it, and the call throws the error of the final check,
  whose message says that it should not happen.
\<close>

theorem final_check_reached:
  "4 * columnCountOf [[]::jsstring] defaultOptions + 1 \<le> maxWidth defaultOptions
   \<and> finalWidths id numberToString [] [[]] defaultOptions = Some (Inr [2])
   \<and> createTable id numberToString [] [[]] defaultOptions = Some (Inl (Error bugReportMessage))"
  by code_simp

text \<open>
  Claim C8 at the input \<open>createTable ([], [''], {maxWidth: 5})\<close>: one column and
  \<open>maxWidth = 4 * 1 + 1\<close>. The call does not return a table with a column of width 3:
  the column keeps its natural width 2 and the final check throws.
\<close>

theorem boundary_width_fails:
  "maxWidth (defaultOptions\<lparr>maxWidth := 5\<rparr>)
     = 4 * columnCountOf [[]::jsstring] (defaultOptions\<lparr>maxWidth := 5\<rparr>) + 1
   \<and> createTable id numberToString [] [[]] (defaultOptions\<lparr>maxWidth := 5\<rparr>)
     = Some (Inl (Error bugReportMessage))"
  by code_simp

subsection \<open>Joining and splitting lines\<close>

lemma join_Cons: "xs \<noteq> [] \<Longrightarrow> join s (x # xs) = x @ s @ join s xs"
  by (cases xs) auto

lemma join_append:
  "xs \<noteq> [] \<Longrightarrow> ys \<noteq> [] \<Longrightarrow> join s (xs @ ys) = join s xs @ s @ join s ys"
proof (induction xs)
  case Nil
  then show ?case by simp
next
  case (Cons x xs)
  then show ?case by (cases "xs = []") (simp_all add: join_Cons)
qed

lemma join_concat:
  "xss \<noteq> [] \<Longrightarrow> \<forall>xs\<in>set xss. xs \<noteq> [] \<Longrightarrow> join s (map (join s) xss) = join s (concat xss)"
proof (induction xss)
  case Nil
  then show ?case by simp
next
  case (Cons xs xss)
  show ?case
  proof (cases "xss = []")
    case True
    then show ?thesis by simp
  next
    case False
    then have c: "concat xss \<noteq> []" using Cons.prems(2) by (cases xss) auto
    show ?thesis
      using False Cons c by (simp add: join_Cons join_append)
  qed
qed

lemma length_join:
  "xs \<noteq> [] \<Longrightarrow> length (join [c] xs) + 1 = sum_list (map length xs) + length xs"
proof (induction xs)
  case Nil
  then show ?case by simp
next
  case (Cons x xs)
  then show ?case by (cases "xs = []") (simp_all add: join_Cons)
qed

lemma set_join: "set (join s xs) \<subseteq> set s \<union> \<Union> (set ` set xs)"
proof (induction xs)
  case Nil
  then show ?case by simp
next
  case (Cons x xs)
  then show ?case by (cases "xs = []") (auto simp: join_Cons)
qed

lemma splitLines_line: "NEWLINE \<notin> set l \<Longrightarrow> splitLines l = [l]"
  by (induction l) auto

lemma splitLines_append:
  "NEWLINE \<notin> set l \<Longrightarrow> splitLines (l @ NEWLINE # rest) = l # splitLines rest"
  by (induction l) auto

lemma splitLines_join:
  "ls \<noteq> [] \<Longrightarrow> \<forall>l\<in>set ls. NEWLINE \<notin> set l \<Longrightarrow> splitLines (join [NEWLINE] ls) = ls"
proof (induction ls)
  case Nil
  then show ?case by simp
next
  case (Cons l ls)
  then show ?case
    by (cases "ls = []") (simp_all add: join_Cons splitLines_line splitLines_append)
qed

subsection \<open>Padding and centring\<close>

lemma length_trim: "length (trim s) \<le> length s"
proof -
  have "length (dropWhile isWhiteSpace (rev (dropWhile isWhiteSpace s)))
      \<le> length (rev (dropWhile isWhiteSpace s))"
    by (rule length_dropWhile_le)
  also have "\<dots> \<le> length s" by (simp add: length_dropWhile_le)
  finally show ?thesis by (simp add: trim_def)
qed

lemma set_trim: "set (trim s) \<subseteq> set s"
  unfolding trim_def by (metis set_dropWhileD set_rev subsetI)

lemma length_padEnd: "int (length s) \<le> n \<Longrightarrow> int (length (padEnd s n)) = n"
  by (auto simp: padEnd_def)

lemma length_padStart: "int (length s) \<le> n \<Longrightarrow> int (length (padStart s n)) = n"
  by (auto simp: padStart_def)

lemma set_padEnd: "set (padEnd s n) \<subseteq> insert SPACE (set s)"
  by (auto simp: padEnd_def)

lemma set_padStart: "set (padStart s n) \<subseteq> insert SPACE (set s)"
  by (auto simp: padStart_def)

lemma repeat_unit: "0 \<le> n \<Longrightarrow> repeat [c] n = Inr (replicate (nat n) c)"
  by (simp add: repeat_def)

subsection \<open>Rendering one line\<close>

lemma centerText_ok:
  assumes "int (length c) \<le> w"
  shows "\<exists>p. centerText c w = Inr p \<and> int (length p) = w \<and> set p \<subseteq> insert SPACE (set c)"
proof -
  let ?t = "trim c"
  let ?padding = "(w - int (length ?t)) div 2"
  have t: "int (length ?t) \<le> w" using assms length_trim[of c] by linarith
  have p0: "0 \<le> ?padding" using t by simp
  have fit: "int (length (replicate (nat ?padding) SPACE @ ?t)) \<le> w"
    using t p0 by simp
  have c: "centerText c w = Inr (padEnd (replicate (nat ?padding) SPACE @ ?t) w)"
    by (simp add: centerText_def Let_def repeat_unit[OF p0])
  have "set (padEnd (replicate (nat ?padding) SPACE @ ?t) w) \<subseteq> insert SPACE (set c)"
    using set_padEnd[of "replicate (nat ?padding) SPACE @ ?t" w] set_trim[of c] by auto
  then show ?thesis using c length_padEnd[OF fit] by simp
qed

lemma createCell_ok:
  assumes "i < length cells" "3 \<le> w" "int (length (cells ! i)) \<le> w - 2"
  shows "\<exists>p. createCell cells h (w, i) = Inr p \<and> int (length p) = w
            \<and> set p \<subseteq> insert SPACE (set (cells ! i))"
proof (cases h)
  case HLeft
  have "set (padEnd ([SPACE] @ cells ! i) w) \<subseteq> insert SPACE (set (cells ! i))"
    using set_padEnd[of "[SPACE] @ cells ! i" w] by auto
  then show ?thesis
    using assms length_padEnd[of "[SPACE] @ cells ! i" w]
    by (simp add: createCell_def HLeft elementAt_def cellText_def)
next
  case HMiddle
  have "int (length (cells ! i)) \<le> w" using assms by simp
  from centerText_ok[OF this] show ?thesis
    using assms by (simp add: createCell_def HMiddle elementAt_def)
next
  case HRight
  have "set (padStart (cells ! i @ [SPACE]) w) \<subseteq> insert SPACE (set (cells ! i))"
    using set_padStart[of "cells ! i @ [SPACE]" w] by auto
  then show ?thesis
    using assms length_padStart[of "cells ! i @ [SPACE]" w]
    by (simp add: createCell_def HRight elementAt_def cellText_def)
qed

lemma sum_list_lengths:
  fixes ws :: "int list"
  shows "length ps = length ws \<Longrightarrow> \<forall>i<length ws. int (length (ps ! i)) = ws ! i \<Longrightarrow>
     int (sum_list (map length ps)) = sum_list ws"
proof (induction ps ws rule: list_induct2)
  case Nil
  then show ?case by simp
next
  case (Cons p ps w ws)
  have "int (length p) = w" using Cons.prems by (auto dest: spec[of _ 0])
  moreover have "\<forall>i<length ws. int (length (ps ! i)) = ws ! i"
    using Cons.prems by (auto dest: spec[of _ "Suc _"])
  ultimately show ?case using Cons.IH by simp
qed

lemma in_zip_upt:
  "p \<in> set (zip ws [0..<length ws]) \<longleftrightarrow> snd p < length ws \<and> fst p = ws ! snd p"
  by (cases p) (auto simp: in_set_zip)

lemma createRow_ok:
  assumes "list_all2 (\<lambda>w c. 3 \<le> w \<and> int (length c) \<le> w - 2) ws cells"
  shows "\<exists>line. createRow cells ws h = Inr line
            \<and> (ws \<noteq> [] \<longrightarrow> int (length line) = sum_list ws + int (length ws) + 1)
            \<and> set line \<subseteq> insert SPACE (set VERTICAL \<union> \<Union> (set ` set cells))"
proof -
  let ?g = "\<lambda>p. projr (createCell cells h p)"
  let ?ps = "zip ws [0..<length ws]"
  have len: "length cells = length ws" using assms by (simp add: list_all2_lengthD)
  have each: "createCell cells h p = Inr (?g p) \<and> int (length (?g p)) = fst p
        \<and> set (?g p) \<subseteq> insert SPACE (set (cells ! snd p))" if "p \<in> set ?ps" for p
  proof -
    have z: "snd p < length ws \<and> fst p = ws ! snd p"
      using that by (simp only: in_zip_upt)
    define i where "i = snd p"
    have i: "i < length ws" "p = (ws ! i, i)"
      using z by (simp_all add: i_def prod_eq_iff)
    have "3 \<le> ws ! i \<and> int (length (cells ! i)) \<le> ws ! i - 2"
      using assms i(1) by (simp add: list_all2_conv_all_nth)
    then obtain q where "createCell cells h (ws ! i, i) = Inr q" "int (length q) = ws ! i"
        "set q \<subseteq> insert SPACE (set (cells ! i))"
      using createCell_ok[of i cells "ws ! i" h] i(1) len by auto
    then show ?thesis using i(2) by simp
  qed
  have m: "mapE (createCell cells h) ?ps = Inr (map ?g ?ps)"
    by (rule mapE_Inr) (use each in blast)
  let ?parts = "map ?g ?ps"
  have r: "createRow cells ws h = Inr (VERTICAL @ join VERTICAL ?parts @ VERTICAL)"
    by (simp add: createRow_def m)
  have lp: "length ?parts = length ws" by simp
  have "\<forall>i<length ws. int (length (?parts ! i)) = ws ! i"
  proof (intro allI impI)
    fix i assume i: "i < length ws"
    then have "(ws ! i, i) \<in> set ?ps" by (simp add: in_zip_upt)
    from each[OF this] show "int (length (?parts ! i)) = ws ! i" using i by simp
  qed
  then have sum: "int (sum_list (map length ?parts)) = sum_list ws"
    by (intro sum_list_lengths lp)
  have l: "int (length (VERTICAL @ join VERTICAL ?parts @ VERTICAL)) = sum_list ws + int (length ws) + 1"
    if "ws \<noteq> []"
  proof -
    have "?parts \<noteq> []" using that by simp
    from length_join[OF this, of "0x2502"] sum lp show ?thesis
      by (simp add: VERTICAL_def)
  qed
  have sp: "set p \<subseteq> insert SPACE (\<Union> (set ` set cells))" if "p \<in> set ?parts" for p
  proof -
    from that have "p \<in> ?g ` set ?ps" by (simp only: set_map)
    then obtain q where q: "q \<in> set ?ps" "p = ?g q" by (rule imageE)
    then have "snd q < length cells" using len by (simp add: in_zip_upt)
    then have "set (cells ! snd q) \<subseteq> \<Union> (set ` set cells)" by (meson UN_upper nth_mem)
    then show ?thesis using each[OF q(1)] q(2) by blast
  qed
  have "set (join VERTICAL ?parts) \<subseteq> set VERTICAL \<union> \<Union> (set ` set ?parts)"
    by (rule set_join)
  then have "set (VERTICAL @ join VERTICAL ?parts @ VERTICAL)
      \<subseteq> insert SPACE (set VERTICAL \<union> \<Union> (set ` set cells))"
    using sp by auto
  then show ?thesis using r l by simp
qed

subsection \<open>Rendering one row\<close>

lemma splitCell_ok:
  assumes "i < length row" "3 \<le> ws ! i"
  shows "splitCell row ws i = Some (Inr (slices (nat (ws ! i - 2)) (row ! i)))"
  using assms wrapLoop_slices[of "ws ! i - 2" "row ! i" "[]"]
  by (simp add: splitCell_def elementAt_def)

lemma mapC_splitCell:
  assumes "length row = length ws" "\<forall>w\<in>set ws. 3 \<le> w"
  shows "mapC (splitCell row ws) [0..<length ws] = Some (Inr (wrappedCells row ws))"
  unfolding wrappedCells_def
  by (rule mapC_Inr) (use assms in \<open>simp add: splitCell_ok\<close>)

lemma fold_max_length:
  "fold (\<lambda>cellLines rowHeight. max rowHeight (length cellLines)) cells a
     = Max (insert a (set (map length cells)))"
proof (induction cells arbitrary: a)
  case Nil
  then show ?case by simp
next
  case (Cons c cells)
  have "Max (insert (max a (length c)) S) = Max (insert a (insert (length c) S))"
    if "finite S" for S :: "nat set"
    using that by (cases "S = {}") (auto simp: max.assoc max.commute max.left_commute)
  then show ?case using Cons by simp
qed

lemma rowHeightOf_renderedHeight: "rowHeightOf cells = renderedHeight cells"
  by (simp add: rowHeightOf_def renderedHeight_def fold_max_length)

lemma renderedHeight_ge: "c \<in> set cells \<Longrightarrow> length c \<le> renderedHeight cells"
  by (simp add: renderedHeight_def)

lemma alignCells_paddedCell:
  "alignCells v H cells = map (paddedCell v H) cells"
  by (cases v) (simp_all add: alignCells_def paddedCell_def[abs_def] verticalPadding_def)

lemma cellRowsOf_lineAt:
  "cellRowsOf H cells = map (\<lambda>j. map (\<lambda>cellLines. lineAt cellLines j) cells) [0..<H]"
  by (simp add: cellRowsOf_def lineAt_def elementAt_def)

lemma lineAt_paddedCell:
  "lineAt (paddedCell v H c) j = [] \<or> lineAt (paddedCell v H c) j \<in> set c"
proof -
  define n where "n = (case v of VBottom \<Rightarrow> H - length c | VMiddle \<Rightarrow> (H - length c) div 2
                       | VTop \<Rightarrow> 0)"
  have p: "paddedCell v H c = replicate n [] @ c" by (simp add: paddedCell_def n_def)
  show ?thesis
  proof (cases "j < n")
    case True
    then show ?thesis by (simp add: lineAt_def p nth_append)
  next
    case False
    show ?thesis
    proof (cases "j < n + length c")
      case True
      then have "j - n < length c" using False by simp
      then have "c ! (j - n) \<in> set c" by (rule nth_mem)
      then show ?thesis using True False by (simp add: lineAt_def p nth_append)
    next
      case False
      then show ?thesis by (simp add: lineAt_def p)
    qed
  qed
qed

lemma wrapped_line_fits:
  assumes "i < length ws" "3 \<le> ws ! i" "l \<in> set (wrappedCells row ws ! i)"
  shows "int (length l) \<le> ws ! i - 2 \<and> set l \<subseteq> set (row ! i)"
proof -
  have "l \<in> set (slices (nat (ws ! i - 2)) (row ! i))"
    using assms by (simp add: wrappedCells_def)
  from slices_lengths[OF _ this] assms(2) show ?thesis by auto
qed

lemma cellRow_fits:
  fixes v :: VerticalAlignment and H j :: nat
  assumes "length row = length ws" "\<forall>w\<in>set ws. 3 \<le> w"
  defines "cellRow \<equiv> map (\<lambda>cellLines. lineAt (paddedCell v H cellLines) j) (wrappedCells row ws)"
  shows "list_all2 (\<lambda>w c. 3 \<le> w \<and> int (length c) \<le> w - 2) ws cellRow
       \<and> \<Union> (set ` set cellRow) \<subseteq> \<Union> (set ` set row)"
proof -
  have len: "length cellRow = length ws" by (simp add: cellRow_def wrappedCells_def)
  have each: "3 \<le> ws ! i \<and> int (length (cellRow ! i)) \<le> ws ! i - 2
        \<and> set (cellRow ! i) \<subseteq> set (row ! i)" if i: "i < length ws" for i
  proof -
    have w: "3 \<le> ws ! i" using assms(2) i by simp
    have c: "cellRow ! i = lineAt (paddedCell v H (wrappedCells row ws ! i)) j"
      using i by (simp add: cellRow_def wrappedCells_def)
    show ?thesis
      using lineAt_paddedCell[of v H "wrappedCells row ws ! i" j] wrapped_line_fits[OF i w] w
      unfolding c by auto
  qed
  have a: "list_all2 (\<lambda>w c. 3 \<le> w \<and> int (length c) \<le> w - 2) ws cellRow"
    using len each by (simp add: list_all2_conv_all_nth)
  have b: "\<Union> (set ` set cellRow) \<subseteq> \<Union> (set ` set row)"
  proof
    fix x assume "x \<in> \<Union> (set ` set cellRow)"
    then obtain l where l: "l \<in> set cellRow" "x \<in> set l" by blast
    then obtain i where i: "i < length cellRow" "x \<in> set (cellRow ! i)"
      by (metis in_set_conv_nth)
    then have "x \<in> set (row ! i)" using each[of i] len by auto
    then show "x \<in> \<Union> (set ` set row)" using i(1) len assms(1) by (metis UN_I nth_mem)
  qed
  show ?thesis using a b by simp
qed

lemma createMultiLineRows_ok:
  assumes "length row = length ws" "\<forall>w\<in>set ws. 3 \<le> w"
  defines "cells \<equiv> wrappedCells row ws"
  defines "H \<equiv> renderedHeight cells"
  shows "\<exists>rendered. createMultiLineRows row ws h v = Some (Inr (join [NEWLINE] rendered))
          \<and> length rendered = H
          \<and> (\<forall>j<H. createRow (map (\<lambda>cellLines. lineAt (paddedCell v H cellLines) j) cells) ws h
                      = Inr (rendered ! j))
          \<and> (\<forall>line\<in>set rendered.
                (ws \<noteq> [] \<longrightarrow> int (length line) = sum_list ws + int (length ws) + 1)
                \<and> set line \<subseteq> insert SPACE (set VERTICAL \<union> \<Union> (set ` set row)))"
proof -
  let ?cellRow = "\<lambda>j. map (\<lambda>cellLines. lineAt (paddedCell v H cellLines) j) cells"
  let ?g = "\<lambda>r. projr (createRow r ws h)"
  have rows: "cellRowsOf H (alignCells v H cells) = map ?cellRow [0..<H]"
    by (simp add: cellRowsOf_lineAt alignCells_paddedCell o_def)
  have each: "createRow (?cellRow j) ws h = Inr (?g (?cellRow j))
      \<and> (ws \<noteq> [] \<longrightarrow> int (length (?g (?cellRow j))) = sum_list ws + int (length ws) + 1)
      \<and> set (?g (?cellRow j)) \<subseteq> insert SPACE (set VERTICAL \<union> \<Union> (set ` set row))" for j
  proof -
    have f: "list_all2 (\<lambda>w c. 3 \<le> w \<and> int (length c) \<le> w - 2) ws (?cellRow j)"
      and s: "\<Union> (set ` set (?cellRow j)) \<subseteq> \<Union> (set ` set row)"
      using cellRow_fits[OF assms(1,2), of v H j] by (simp_all add: cells_def)
    from createRow_ok[OF f, of h] obtain line where
      l: "createRow (?cellRow j) ws h = Inr line"
        "ws \<noteq> [] \<longrightarrow> int (length line) = sum_list ws + int (length ws) + 1"
        "set line \<subseteq> insert SPACE (set VERTICAL \<union> \<Union> (set ` set (?cellRow j)))"
      by blast
    have "set line \<subseteq> insert SPACE (set VERTICAL \<union> \<Union> (set ` set row))"
      using l(3) s by blast
    then show ?thesis using l(1,2) by simp
  qed
  have m: "mapE (\<lambda>r. createRow r ws h) (map ?cellRow [0..<H]) = Inr (map ?g (map ?cellRow [0..<H]))"
    by (rule mapE_Inr) (use each in auto)
  let ?rendered = "map ?g (map ?cellRow [0..<H])"
  have c: "createMultiLineRows row ws h v = Some (Inr (join [NEWLINE] ?rendered))"
    by (simp add: createMultiLineRows_def mapC_splitCell[OF assms(1,2)] Let_def
        rowHeightOf_renderedHeight cells_def[symmetric] H_def[symmetric] rows m)
  have "\<forall>j<H. createRow (?cellRow j) ws h = Inr (?rendered ! j)"
    using each by simp
  moreover have "\<forall>line\<in>set ?rendered.
      (ws \<noteq> [] \<longrightarrow> int (length line) = sum_list ws + int (length ws) + 1)
      \<and> set line \<subseteq> insert SPACE (set VERTICAL \<union> \<Union> (set ` set row))"
    using each by auto
  ultimately show ?thesis using c by (intro exI[of _ ?rendered]) simp
qed



subsection \<open>The rounding error of binary64\<close>




declare bitLength.simps [simp del]









subsection \<open>The shrink step against the exact formula\<close>


lemma sum_list_nth_upt:
  fixes ws :: "int list"
  shows "sum_list ws = (\<Sum>i\<leftarrow>[0..<length ws]. ws ! i)"
  by (simp add: map_nth)











subsection \<open>The wrapper and the height of a row\<close>

lemma nth_at_least:
  fixes ws :: "int list"
  shows "\<forall>w\<in>set ws. 3 \<le> w \<Longrightarrow> i < length ws \<Longrightarrow> 3 \<le> ws ! i"
  by simp

lemma renderedHeight_positive:
  assumes "length row = length ws" "\<forall>w\<in>set ws. 3 \<le> w" "\<exists>c\<in>set row. c \<noteq> []"
  shows "0 < renderedHeight (wrappedCells row ws)"
proof -
  obtain i where i: "i < length row" "row ! i \<noteq> []"
    using assms(3) by (metis in_set_conv_nth)
  have n: "0 < nat (ws ! i - 2)" using nth_at_least[OF assms(2), of i] assms(1) i(1) by simp
  have "slices (nat (ws ! i - 2)) (row ! i) \<noteq> []"
    using concat_slices[OF n, of "row ! i"] i(2) by auto
  then have "0 < length (wrappedCells row ws ! i)"
    using i(1) assms(1) by (simp add: wrappedCells_def)
  moreover have "wrappedCells row ws ! i \<in> set (wrappedCells row ws)"
    using i(1) assms(1) by (simp add: wrappedCells_def)
  ultimately show ?thesis
    using renderedHeight_ge[of "wrappedCells row ws ! i" "wrappedCells row ws"] by linarith
qed

text \<open>
  Claim C3, as the code has it. For an inner width of at least one (a final width of at
  least three), the wrapper returns the consecutive slices of at most \<open>innerWidth\<close>
  characters of the cell text, from left to right, until the text is exhausted: their
  concatenation is the text and no slice is empty. For the empty text it returns no
  slice at all. So the first loop of \<open>createMultiLineRows\<close>, on a row with one cell for
  each column of width at least three, returns the wrapped cells, and the row height it
  computes is at least one when the row has a cell that is not empty.
\<close>

theorem wrap_into_slices:
  assumes "1 \<le> innerWidth"
    and "length row = length columnWidths" and "\<forall>w\<in>set columnWidths. 3 \<le> w"
  shows "wrapLoop innerWidth cell [] = Some (slices (nat innerWidth) cell)
       \<and> concat (slices (nat innerWidth) cell) = cell
       \<and> (\<forall>l \<in> set (slices (nat innerWidth) cell). 1 \<le> length l \<and> length l \<le> nat innerWidth)
       \<and> (cell = [] \<longrightarrow> wrapLoop innerWidth cell [] = Some [])
       \<and> (\<exists>cells. mapC (splitCell row columnWidths) [0..<length columnWidths] = Some (Inr cells)
             \<and> cells = map (\<lambda>i. slices (nat (columnWidths ! i - 2)) (row ! i))
                         [0..<length columnWidths]
             \<and> ((\<exists>c\<in>set row. c \<noteq> []) \<longrightarrow> 1 \<le> rowHeightOf cells))"
proof -
  have n: "0 < nat innerWidth" using assms(1) by simp
  have w: "wrapLoop innerWidth cell [] = Some (slices (nat innerWidth) cell)"
    using wrapLoop_slices[OF assms(1), of cell "[]"] by simp
  have wrapper: "wrapLoop innerWidth cell [] = Some (slices (nat innerWidth) cell)
       \<and> concat (slices (nat innerWidth) cell) = cell
       \<and> (\<forall>l \<in> set (slices (nat innerWidth) cell). 1 \<le> length l \<and> length l \<le> nat innerWidth)
       \<and> (cell = [] \<longrightarrow> wrapLoop innerWidth cell [] = Some [])"
    using w concat_slices[OF n] slices_lengths[OF n] slices_Nil[OF n] by auto
  have m: "mapC (splitCell row columnWidths) [0..<length columnWidths]
      = Some (Inr (wrappedCells row columnWidths))"
    by (rule mapC_splitCell[OF assms(2,3)])
  have h: "1 \<le> rowHeightOf (wrappedCells row columnWidths)" if "\<exists>c\<in>set row. c \<noteq> []"
    using renderedHeight_positive[OF assms(2,3) that]
    by (simp add: rowHeightOf_renderedHeight)
  have "\<exists>cells. mapC (splitCell row columnWidths) [0..<length columnWidths] = Some (Inr cells)
             \<and> cells = map (\<lambda>i. slices (nat (columnWidths ! i - 2)) (row ! i))
                         [0..<length columnWidths]
             \<and> ((\<exists>c\<in>set row. c \<noteq> []) \<longrightarrow> 1 \<le> rowHeightOf cells)"
    using m h by (intro exI[of _ "wrappedCells row columnWidths"]) (simp add: wrappedCells_def)
  then show ?thesis using wrapper by blast
qed

theorem wrap_into_slices_witness:
  "wrapLoop 2 (ascii ''hello'') [] = Some [ascii ''he'', ascii ''ll'', ascii ''o'']
   \<and> wrapLoop 2 [] [] = Some []
   \<and> mapC (splitCell [ascii ''hello'', []] [4, 3]) [0..<length [4, 3::int]]
       = Some (Inr [[ascii ''he'', ascii ''ll'', ascii ''o''], []])
   \<and> 1 \<le> rowHeightOf [[ascii ''he'', ascii ''ll'', ascii ''o''], []]"
proof -
  have a1: "(1::int) \<le> 2" by simp
  have a2: "length [ascii ''hello'', []] = length [4, 3::int]" by simp
  have a3: "\<forall>w\<in>set [4, 3::int]. 3 \<le> w" by simp
  have s1: "slices (nat 2) (ascii ''hello'') = [ascii ''he'', ascii ''ll'', ascii ''o'']"
    by code_simp
  have s2: "map (\<lambda>i. slices (nat ([4, 3::int] ! i - 2)) ([ascii ''hello'', []] ! i))
        [0..<length [4, 3::int]] = [[ascii ''he'', ascii ''ll'', ascii ''o''], []]"
    by code_simp
  have ne: "\<exists>c\<in>set [ascii ''hello'', []]. c \<noteq> []" by (simp add: ascii_def)
  show ?thesis
    using wrap_into_slices[OF a1 a2 a3, of "ascii ''hello''"] wrap_into_slices[OF a1 a2 a3, of "[]"]
      ne
    unfolding s1 s2 by auto
qed

text \<open>
  The claim as stated asks for one empty line from the empty text. The wrapper returns
  none, and a row whose only cell is empty has the height 0 and is rendered as no line.
\<close>

theorem wrap_empty_text_counterexample:
  "wrapLoop 1 [] [] = Some []
   \<and> wrapLoop 1 [] [] \<noteq> Some [[]]
   \<and> mapC (splitCell [[]] [3]) [0..<1] = Some (Inr [[]])
   \<and> rowHeightOf [[]] = 0
   \<and> createMultiLineRows [[]] [3] HMiddle VMiddle = Some (Inr [])"
  by code_simp

subsection \<open>Rendering the table\<close>

lemma borderLine_ok:
  assumes "\<forall>w\<in>set ws. 3 \<le> w"
  shows "borderLine [l] [m] [r] ws
           = Inr ([l] @ join [m] (map (\<lambda>w. replicate (nat w) 0x2500) ws) @ [r])"
proof -
  have "mapE (\<lambda>size. repeat HORIZONTAL size) ws = Inr (map (\<lambda>w. replicate (nat w) 0x2500) ws)"
  proof (rule mapE_Inr)
    fix w assume "w \<in> set ws"
    then have "0 \<le> w" using assms by fastforce
    then show "repeat HORIZONTAL w = Inr (replicate (nat w) 0x2500)"
      by (simp add: HORIZONTAL_def repeat_unit)
  qed
  then show ?thesis by (simp add: borderLine_def)
qed

lemma borderLine_line:
  assumes "ws \<noteq> []" "\<forall>w\<in>set ws. 3 \<le> w" "l \<noteq> NEWLINE" "m \<noteq> NEWLINE" "r \<noteq> NEWLINE"
  shows "\<exists>line. borderLine [l] [m] [r] ws = Inr line
            \<and> int (length line) = sum_list ws + int (length ws) + 1 \<and> NEWLINE \<notin> set line"
proof -
  let ?parts = "map (\<lambda>w. replicate (nat w) (0x2500 :: 16 word)) ws"
  have ne: "?parts \<noteq> []" using assms(1) by simp
  have "\<forall>i<length ws. int (length (?parts ! i)) = ws ! i"
    using nth_at_least[OF assms(2)] by fastforce
  then have s: "int (sum_list (map length ?parts)) = sum_list ws"
    by (intro sum_list_lengths) simp
  have len: "int (length ([l] @ join [m] ?parts @ [r])) = sum_list ws + int (length ws) + 1"
    using length_join[OF ne, of m] s by simp
  have "set (join [m] ?parts) \<subseteq> set [m] \<union> \<Union> (set ` set ?parts)" by (rule set_join)
  then have "NEWLINE \<notin> set ([l] @ join [m] ?parts @ [r])"
    using assms(3,4,5) by (auto simp: NEWLINE_def)
  then show ?thesis using borderLine_ok[OF assms(2), of l m r] len by simp
qed

lemma createMultiLineRows_lines:
  assumes "ws \<noteq> []" "length row = length ws" "\<forall>w\<in>set ws. 3 \<le> w" "\<exists>c\<in>set row. c \<noteq> []"
    "\<forall>c\<in>set row. NEWLINE \<notin> set c"
  shows "\<exists>rendered. createMultiLineRows row ws h v = Some (Inr (join [NEWLINE] rendered))
          \<and> rendered \<noteq> []
          \<and> (\<forall>line\<in>set rendered. int (length line) = sum_list ws + int (length ws) + 1
                 \<and> NEWLINE \<notin> set line)"
proof -
  from createMultiLineRows_ok[OF assms(2,3), of h v] obtain rendered where r:
    "createMultiLineRows row ws h v = Some (Inr (join [NEWLINE] rendered))"
    "length rendered = renderedHeight (wrappedCells row ws)"
    "\<forall>line\<in>set rendered.
        (ws \<noteq> [] \<longrightarrow> int (length line) = sum_list ws + int (length ws) + 1)
        \<and> set line \<subseteq> insert SPACE (set VERTICAL \<union> \<Union> (set ` set row))"
    by blast
  have "rendered \<noteq> []" using r(2) renderedHeight_positive[OF assms(2,3,4)] by auto
  moreover have "NEWLINE \<notin> insert SPACE (set VERTICAL \<union> \<Union> (set ` set row))"
    using assms(5) by (auto simp: NEWLINE_def SPACE_def VERTICAL_def)
  ultimately show ?thesis using r(1,3) assms(1) by blast
qed

lemma renderTable_lines:
  assumes ws: "ws \<noteq> []" "\<forall>w\<in>set ws. 3 \<le> w"
    and names: "length names = length ws" "\<exists>c\<in>set names. c \<noteq> []"
      "\<forall>c\<in>set names. NEWLINE \<notin> set c"
    and content: "content \<noteq> []"
      "\<forall>row\<in>set content. length row = length ws \<and> (\<exists>c\<in>set row. c \<noteq> [])
          \<and> (\<forall>c\<in>set row. NEWLINE \<notin> set c)"
  shows "\<exists>lines. renderTable names content ws h v = Some (Inr (join [NEWLINE] lines))
          \<and> lines \<noteq> []
          \<and> (\<forall>line\<in>set lines. int (length line) = sum_list ws + int (length ws) + 1
                 \<and> NEWLINE \<notin> set line)"
proof -
  let ?good = "\<lambda>line. int (length line) = sum_list ws + int (length ws) + 1 \<and> NEWLINE \<notin> set line"
  have glyphs: "(0x250C :: 16 word) \<noteq> NEWLINE" "(0x252C :: 16 word) \<noteq> NEWLINE"
    "(0x2510 :: 16 word) \<noteq> NEWLINE" "(0x251C :: 16 word) \<noteq> NEWLINE"
    "(0x253C :: 16 word) \<noteq> NEWLINE" "(0x2524 :: 16 word) \<noteq> NEWLINE"
    "(0x2514 :: 16 word) \<noteq> NEWLINE" "(0x2534 :: 16 word) \<noteq> NEWLINE"
    "(0x2518 :: 16 word) \<noteq> NEWLINE"
    by (simp_all add: NEWLINE_def)
  have "\<exists>line. createTableTop ws = Inr line \<and> ?good line"
    unfolding createTableTop_def TOP_LEFT_def TOP_MIDDLE_def TOP_RIGHT_def
    by (rule borderLine_line[OF ws glyphs(1,2,3)])
  then obtain topLine where t: "createTableTop ws = Inr topLine" "?good topLine" by blast
  have "\<exists>line. createTableMiddleLine ws = Inr line \<and> ?good line"
    unfolding createTableMiddleLine_def LEFT_MIDDLE_def MIDDLE_def RIGHT_MIDDLE_def
    by (rule borderLine_line[OF ws glyphs(4,5,6)])
  then obtain middleLine where m: "createTableMiddleLine ws = Inr middleLine" "?good middleLine"
    by blast
  have "\<exists>line. createTableBottom ws = Inr line \<and> ?good line"
    unfolding createTableBottom_def BOTTOM_LEFT_def BOTTOM_MIDDLE_def BOTTOM_RIGHT_def
    by (rule borderLine_line[OF ws glyphs(7,8,9)])
  then obtain bottomLine where b: "createTableBottom ws = Inr bottomLine" "?good bottomLine"
    by blast
  obtain header where hd: "createMultiLineRows names ws h v = Some (Inr (join [NEWLINE] header))"
      "header \<noteq> []" "\<forall>line\<in>set header. ?good line"
    using createMultiLineRows_lines[OF ws(1) names(1) ws(2) names(2,3), of h v] by blast
  define block where "block = (\<lambda>row. SOME rendered.
      createMultiLineRows row ws h v = Some (Inr (join [NEWLINE] rendered))
      \<and> rendered \<noteq> [] \<and> (\<forall>line\<in>set rendered. ?good line))"
  have blk: "createMultiLineRows row ws h v = Some (Inr (join [NEWLINE] (block row)))
      \<and> block row \<noteq> [] \<and> (\<forall>line\<in>set (block row). ?good line)" if "row \<in> set content" for row
  proof -
    have r: "length row = length ws" "\<exists>c\<in>set row. c \<noteq> []" "\<forall>c\<in>set row. NEWLINE \<notin> set c"
      using content(2) that by blast+
    have "\<exists>rendered. createMultiLineRows row ws h v = Some (Inr (join [NEWLINE] rendered))
      \<and> rendered \<noteq> [] \<and> (\<forall>line\<in>set rendered. ?good line)"
      by (rule createMultiLineRows_lines[OF ws(1) r(1) ws(2) r(2,3)])
    then show ?thesis unfolding block_def by (rule someI_ex)
  qed
  let ?blocks = "map block content"
  have rows: "createTableRows content ws h v
      = Some (Inr (join [NEWLINE] (map (join [NEWLINE]) ?blocks)))"
  proof -
    have "mapC (\<lambda>row. createMultiLineRows row ws h v) content
        = Some (Inr (map (\<lambda>row. join [NEWLINE] (block row)) content))"
      by (rule mapC_Inr) (use blk in blast)
    then show ?thesis by (simp add: createTableRows_def o_def)
  qed
  have bne: "?blocks \<noteq> []" "\<forall>xs\<in>set ?blocks. xs \<noteq> []"
    using content(1) blk by simp_all
  have cne: "concat ?blocks \<noteq> []" using bne by (cases content) auto
  let ?lines = "topLine # header @ [middleLine] @ concat ?blocks @ [bottomLine]"
  have j1: "join [NEWLINE] (concat ?blocks @ [bottomLine])
      = join [NEWLINE] (map (join [NEWLINE]) ?blocks) @ [NEWLINE] @ bottomLine"
    using join_append[OF cne, of "[bottomLine]" "[NEWLINE]"] join_concat[OF bne, of "[NEWLINE]"]
    by simp
  have j2: "join [NEWLINE] ([middleLine] @ concat ?blocks @ [bottomLine])
      = middleLine @ [NEWLINE] @ join [NEWLINE] (concat ?blocks @ [bottomLine])"
    using join_Cons[of "concat ?blocks @ [bottomLine]" "[NEWLINE]" middleLine] by simp
  have j3: "join [NEWLINE] (header @ [middleLine] @ concat ?blocks @ [bottomLine])
      = join [NEWLINE] header @ [NEWLINE]
        @ join [NEWLINE] ([middleLine] @ concat ?blocks @ [bottomLine])"
    using join_append[OF hd(2), of "[middleLine] @ concat ?blocks @ [bottomLine]" "[NEWLINE]"]
    by simp
  have j4: "join [NEWLINE] ?lines
      = topLine @ [NEWLINE] @ join [NEWLINE] (header @ [middleLine] @ concat ?blocks @ [bottomLine])"
    using join_Cons[of "header @ [middleLine] @ concat ?blocks @ [bottomLine]" "[NEWLINE]" topLine]
    by simp
  have "join [NEWLINE] [topLine, join [NEWLINE] header @ [NEWLINE] @ middleLine,
          join [NEWLINE] (map (join [NEWLINE]) ?blocks), bottomLine]
      = join [NEWLINE] ?lines"
    unfolding j4 j3 j2 j1 by simp
  then have out: "renderTable names content ws h v = Some (Inr (join [NEWLINE] ?lines))"
    by (simp add: renderTable_def t(1) m(1) b(1) hd(1) rows createTableColumnNames_def)
  have "\<forall>line\<in>set (concat ?blocks). ?good line"
    using blk by simp
  then have "\<forall>line\<in>set ?lines. ?good line"
    using t(2) m(2) b(2) hd(3) by auto
  then show ?thesis using out by blast
qed

subsection \<open>The lines of a table\<close>

text \<open>
  Claim C4, as the code has it. Take a call that passes the minimum-width check and
  returns a table, with at least one column and at least one item, where every row
  (the row of the column names and every row of the table content) has a cell that is
  not empty and no cell holds a line break. Then every physical line of the result has
  the length \<open>1 + sum (final widths) + columnCount\<close>, and this length is at most
  \<open>maxWidth\<close>.
\<close>

theorem lines_have_equal_length:
  fixes keyToString :: "'k \<Rightarrow> jsstring" and inspect :: "'v \<Rightarrow> jsstring"
  assumes feasible: "4 * columnCountOf keys options + 1 \<le> maxWidth options"
    and out: "createTable keyToString inspect items keys options = Some (Inr out)"
    and cols: "0 < columnCountOf keys options"
    and rows: "items \<noteq> []"
    and names: "names = columnNamesOf keyToString keys options"
    and content: "content = tableContentOf inspect items keys options"
    and nonblank: "\<forall>row\<in>set (names # content). \<exists>cell\<in>set row. cell \<noteq> []"
    and oneline: "\<forall>row\<in>set (names # content). \<forall>cell\<in>set row. NEWLINE \<notin> set cell"
  shows "\<exists>widths. finalWidths keyToString inspect items keys options = Some (Inr widths)
          \<and> (\<forall>line\<in>set (splitLines out).
                 int (length line) = 1 + sum_list widths + columnCountOf keys options)
          \<and> 1 + sum_list widths + columnCountOf keys options \<le> maxWidth options"
proof -
  have nf: "\<not> maxWidth options < 4 * columnCountOf keys options + 1" using feasible by simp
  obtain widths where fw: "finalWidths keyToString inspect items keys options = Some (Inr widths)"
    and ok: "\<not> list_ex (\<lambda>columnWidth. columnWidth < 3) widths"
    and r: "renderTable names content widths (horizontalAlignment options)
              (verticalAlignment options) = Some (Inr out)"
    using out nf unfolding createTable_def Let_def names content
    by (auto split: option.splits sum.splits if_splits)
  have len: "int (length widths) = columnCountOf keys options"
    and sum: "sum_list widths + columnCountOf keys options + 1 \<le> maxWidth options"
    using finalWidths_sum[OF feasible fw] by simp_all
  have wne: "widths \<noteq> []" using len cols by auto
  have w3: "\<forall>w\<in>set widths. 3 \<le> w" using ok by (auto simp: list_ex_iff)
  have ln: "length names = length widths"
    using len length_columnNamesOf[of keyToString keys options] names by simp
  have cne: "content \<noteq> []"
    using rows length_tableContentOf[of inspect items keys options] content by auto
  have crow: "\<forall>row\<in>set content. length row = length widths \<and> (\<exists>c\<in>set row. c \<noteq> [])
          \<and> (\<forall>c\<in>set row. NEWLINE \<notin> set c)"
  proof
    fix row assume row: "row \<in> set content"
    have "int (length row) = columnCountOf keys options"
      using length_rows_tableContentOf row content by blast
    then show "length row = length widths \<and> (\<exists>c\<in>set row. c \<noteq> [])
          \<and> (\<forall>c\<in>set row. NEWLINE \<notin> set c)"
      using len nonblank oneline row by simp
  qed
  have n1: "\<exists>c\<in>set names. c \<noteq> []" and n2: "\<forall>c\<in>set names. NEWLINE \<notin> set c"
    using nonblank oneline by simp_all
  from renderTable_lines[OF wne w3 ln n1 n2 cne crow, of "horizontalAlignment options"
      "verticalAlignment options"]
  obtain lines where l: "out = join [NEWLINE] lines" "lines \<noteq> []"
      "\<forall>line\<in>set lines. int (length line) = sum_list widths + int (length widths) + 1
          \<and> NEWLINE \<notin> set line"
    using r by auto
  have "splitLines out = lines" unfolding l(1) using l(2,3) by (intro splitLines_join) simp_all
  then have "\<forall>line\<in>set (splitLines out).
      int (length line) = 1 + sum_list widths + columnCountOf keys options"
    using l(3) len by simp
  then show ?thesis using fw sum by (intro exI[of _ widths]) simp
qed

theorem lines_have_equal_length_witness:
  "finalWidths id numberToString [\<lambda>k. 1] [ascii ''a'', ascii ''b'']
       (defaultOptions\<lparr>maxWidth := 20\<rparr>) = Some (Inr [3, 3])
   \<and> list_all (\<lambda>line. int (length line) = 9)
       (splitLines (projr (the (createTable id numberToString [\<lambda>k. 1] [ascii ''a'', ascii ''b'']
          (defaultOptions\<lparr>maxWidth := 20\<rparr>)))))
   \<and> length (splitLines (projr (the (createTable id numberToString [\<lambda>k. 1]
          [ascii ''a'', ascii ''b''] (defaultOptions\<lparr>maxWidth := 20\<rparr>))))) = 5"
proof -
  let ?keys = "[ascii ''a'', ascii ''b'']"
  let ?items = "[\<lambda>k::jsstring. 1::int]"
  let ?o = "defaultOptions\<lparr>maxWidth := 20\<rparr>"
  let ?out = "projr (the (createTable id numberToString ?items ?keys ?o))"
  have h1: "4 * columnCountOf ?keys ?o + 1 \<le> maxWidth ?o" by code_simp
  have h2: "createTable id numberToString ?items ?keys ?o = Some (Inr ?out)" by code_simp
  have h3: "0 < columnCountOf ?keys ?o" by code_simp
  have h4: "?items \<noteq> []" by simp
  have h5: "[ascii ''a'', ascii ''b''] = columnNamesOf id ?keys ?o" by code_simp
  have h6: "[[ascii ''1'', ascii ''1'']] = tableContentOf numberToString ?items ?keys ?o"
    by code_simp
  have h7: "\<forall>row\<in>set ([ascii ''a'', ascii ''b''] # [[ascii ''1'', ascii ''1'']]).
      \<exists>cell\<in>set row. cell \<noteq> []" by code_simp
  have h8: "\<forall>row\<in>set ([ascii ''a'', ascii ''b''] # [[ascii ''1'', ascii ''1'']]).
      \<forall>cell\<in>set row. NEWLINE \<notin> set cell" by code_simp
  have fw: "finalWidths id numberToString ?items ?keys ?o = Some (Inr [3, 3])" by code_simp
  have cc: "columnCountOf ?keys ?o = 2" by code_simp
  have n: "length (splitLines ?out) = 5" by code_simp
  from lines_have_equal_length[OF h1 h2 h3 h4 h5 h6 h7 h8]
  have "\<forall>line\<in>set (splitLines ?out). int (length line) = 1 + sum_list [3, 3] + 2"
    unfolding fw cc by auto
  then have "list_all (\<lambda>line. int (length line) = 9) (splitLines ?out)"
    by (simp add: list_all_iff)
  then show ?thesis using fw n by simp
qed

text \<open>
  The claim as stated does not hold for every table that is returned. A column name
  with a line break in it is split over two physical lines that are shorter than the
  borders; and with no column at all the borders have 2 characters, not
  \<open>1 + 0 + 0\<close>, which is more than a \<open>maxWidth\<close> of 1.
\<close>

theorem lines_have_equal_length_counterexample:
  "map_option (map_sum id (map length \<circ> splitLines))
     (createTable id numberToString [\<lambda>k. 1] [ascii ''a'' @ [NEWLINE] @ ascii ''b'']
        defaultOptions) = Some (Inr [7, 3, 3, 7, 7, 7])
   \<and> finalWidths id numberToString [\<lambda>k. 1] [ascii ''a'' @ [NEWLINE] @ ascii ''b'']
        defaultOptions = Some (Inr [5])
   \<and> createTable id numberToString [\<lambda>k. 1] ([] :: jsstring list)
        (defaultOptions\<lparr>maxWidth := 1\<rparr>)
      = Some (Inr (join [NEWLINE] [TOP_LEFT @ TOP_RIGHT, [], LEFT_MIDDLE @ RIGHT_MIDDLE, [],
                                   BOTTOM_LEFT @ BOTTOM_RIGHT]))"
  by code_simp

end
